theory Spec2Isabelle
  imports Complex_Main "HOL-Library.Char_ord" "HOL-Library.List_Lexorder"
    "HOL-Library.Product_Lexorder" "HOL-Library.Multiset"
begin

section \<open>Strings\<close>

text \<open>
  Python strings are modelled as \<^typ>\<open>string\<close>, restricted to ASCII text: \<open>str.upper\<close>
  changes the letters a to z only, \<open>str.strip\<close> removes the ASCII whitespace characters
  (tab, line feed, vertical tab, form feed, carriage return, the four separators 0x1C to 0x1F
  and the space), and \<open>str.isdigit\<close> and the regular expression class \<open>\d\<close> accept the
  digits 0 to 9. String comparison is the lexicographic order on character codes, as in
  Python.
\<close>

definition whitespace :: "char list" where
  "whitespace = [CHR 0x09, CHR 0x0A, CHR 0x0B, CHR 0x0C, CHR 0x0D,
                 CHR 0x1C, CHR 0x1D, CHR 0x1E, CHR 0x1F, CHR '' '']"

definition isspace :: "char \<Rightarrow> bool" where
  "isspace c = (c \<in> set whitespace)"

definition strip :: "string \<Rightarrow> string" where
  "strip s = rev (dropWhile isspace (rev (dropWhile isspace s)))"

definition upper_char :: "char \<Rightarrow> char" where
  "upper_char c =
     (case map_of (zip ''abcdefghijklmnopqrstuvwxyz'' ''ABCDEFGHIJKLMNOPQRSTUVWXYZ'') c of
        Some d \<Rightarrow> d
      | None \<Rightarrow> c)"

definition upper :: "string \<Rightarrow> string" where
  "upper s = map upper_char s"

definition isdigit_char :: "char \<Rightarrow> bool" where
  "isdigit_char c = (c \<in> set ''0123456789'')"

text \<open>\<open>s.isdigit()\<close>: every character is a digit and there is at least one.\<close>

definition isdigit :: "string \<Rightarrow> bool" where
  "isdigit s = (s \<noteq> [] \<and> list_all isdigit_char s)"

text \<open>\<open>s.startswith(p)\<close>.\<close>

definition startswith :: "string \<Rightarrow> string \<Rightarrow> bool" where
  "startswith s p = (take (length p) s = p)"

text \<open>\<open>p in s\<close> for strings: \<open>p\<close> occurs in \<open>s\<close> as a contiguous substring.\<close>

fun contains :: "string \<Rightarrow> string \<Rightarrow> bool" where
  "contains [] p = (p = [])"
| "contains (c # cs) p = (startswith (c # cs) p \<or> contains cs p)"

text \<open>
  \<open>re.match(r'^\d+$', s)\<close>: one or more digits up to the end of the string, where \<open>$\<close>
  also matches just before one final line feed.
\<close>

definition match_digits :: "string \<Rightarrow> bool" where
  "match_digits s =
     (let t = (if s \<noteq> [] \<and> last s = CHR 0x0A then butlast s else s)
      in t \<noteq> [] \<and> list_all isdigit_char t)"


section \<open>Format classifier\<close>

text \<open>
  The format tags returned by \<open>get_unit_format_type\<close>; \<open>tag_name\<close> gives the Python string
  of each tag.
\<close>

datatype FormatTag =
    no_unit | unit_format | apt_format | number_only
  | ste_format | building_format | hash_b_format | hash_format | other_format

fun tag_name :: "FormatTag \<Rightarrow> string" where
  "tag_name no_unit = ''no_unit''"
| "tag_name unit_format = ''unit_format''"
| "tag_name apt_format = ''apt_format''"
| "tag_name number_only = ''number_only''"
| "tag_name ste_format = ''ste_format''"
| "tag_name building_format = ''building_format''"
| "tag_name hash_b_format = ''hash_b_format''"
| "tag_name hash_format = ''hash_format''"
| "tag_name other_format = ''other_format''"

text \<open>
  A unit value is \<open>None\<close> when \<open>pd.isna\<close> holds of the cell and \<open>Some s\<close> with \<open>s\<close> the
  string form of the cell otherwise.
\<close>

definition detect_unit_anomalies :: "string option \<Rightarrow> string option" where
  "detect_unit_anomalies unit_value =
     (case unit_value of
        None \<Rightarrow> None
      | Some v \<Rightarrow>
          (let unit_str = strip (upper v) in
           if list_ex (\<lambda>keyword. contains unit_str keyword)
                [''OFC'', ''OFFICE'', ''CLUBHOUSE'', ''LEASING'', ''CLUB'']
           then Some ''office_indicator''
           else if contains unit_str ''STE'' \<or> contains unit_str ''SUITE''
           then Some ''suite_indicator''
           else None))"

definition get_unit_format_type :: "string option \<Rightarrow> FormatTag" where
  "get_unit_format_type unit_value =
     (case unit_value of
        None \<Rightarrow> no_unit
      | Some v \<Rightarrow>
          (let unit_str = upper (strip v) in
           if startswith unit_str ''UNIT'' then unit_format
           else if startswith unit_str ''APT'' then apt_format
           else if match_digits unit_str then number_only
           else if startswith unit_str ''STE'' then ste_format
           else if contains unit_str ''BLDG'' \<or> contains unit_str ''BUILDING''
           then building_format
           else if startswith unit_str ''#'' \<and> contains unit_str ''B-'' then hash_b_format
           else if startswith unit_str ''#'' then hash_format
           else other_format))"


section \<open>Data model\<close>

text \<open>
  One row of the loaded frame. The required columns \<open>ID\<close>, \<open>Building Type\<close> and \<open>Subname\<close> are
  strings (\<open>load_data\<close> replaces a missing \<open>Subname\<close> by \<open>No Subname\<close>); a cell of any other
  column is \<open>None\<close> when \<open>pd.isna\<close> holds of it, which is also the value of a cell whose
  optional column is absent from the frame.
\<close>

record row =
  ID :: string
  Street_Address :: "string option"
  Unit_Number :: "string option"
  Building_Type :: string
  Subname :: string
  City :: "string option"
  Zip :: "string option"
  Plus_4_Code :: "string option"
  Zone :: "string option"
  Street_Name :: "string option"

text \<open>
  A data frame is the list of its rows in frame order, each with its index label. The names
  of the columns of the frame are passed separately where the code asks for them.
\<close>

type_synonym dataframe = "(nat \<times> row) list"

text \<open>\<open>df.drop(labels)\<close>: the rows whose label is not listed.\<close>

definition drop_rows :: "dataframe \<Rightarrow> nat list \<Rightarrow> dataframe" where
  "drop_rows df labels = filter (\<lambda>(idx, row). idx \<notin> set labels) df"

text \<open>\<open>df.loc[labels]\<close>: for each listed label in turn, the rows carrying it.\<close>

definition loc :: "dataframe \<Rightarrow> nat list \<Rightarrow> dataframe" where
  "loc df labels = concat (map (\<lambda>l. filter (\<lambda>(idx, row). idx = l) df) labels)"

text \<open>
  The reason of a flag entry. The Python texts are:
  \<open>Community has {n} addresses (>800 threshold)\<close>,
  \<open>MDU anomalous format: {row_format} (standard is {majority})\<close>,
  \<open>MDU minority format: {row_format} (majority is {majority})\<close>,
  \<open>Minority unit format ({row_format}) vs majority ({majority})\<close>,
  \<open>One-off: Single address without unit among {n} with units\<close> and
  \<open>One-off: Single address with unit among {n} without units\<close>.
\<close>

datatype reason =
    Oversized nat
  | MDU_anomalous_format FormatTag FormatTag
  | MDU_minority_format FormatTag FormatTag
  | Minority_unit_format FormatTag FormatTag
  | One_off_without_unit nat
  | One_off_with_unit nat

text \<open>A flag entry: the index label, the reason and the fields of the row.\<close>

type_synonym flag_entry = "nat \<times> reason \<times> row"

text \<open>
  The comparisons \<open>a / b > 0.8\<close> and \<open>a / b >= 0.8\<close> of two counts, by cross
  multiplication. (The quotient of two counts below \<open>2 ^ 50\<close> that differs from four fifths
  differs from it by more than the rounding error of the division, so the floating point
  comparison of the code agrees with the exact one.)
\<close>

definition ratio_gt_08 :: "nat \<Rightarrow> nat \<Rightarrow> bool" where
  "ratio_gt_08 a b = (4 * b < 5 * a)"

definition ratio_ge_08 :: "nat \<Rightarrow> nat \<Rightarrow> bool" where
  "ratio_ge_08 a b = (4 * b \<le> 5 * a)"

text \<open>
  \<open>collections.Counter\<close>: a dictionary in insertion order, as an association list. A key
  first seen is appended with count one.
\<close>

fun counter_add :: "'a \<Rightarrow> ('a \<times> nat) list \<Rightarrow> ('a \<times> nat) list" where
  "counter_add k [] = [(k, 1)]"
| "counter_add k ((k', n) # kvs) =
     (if k = k' then (k', n + 1) # kvs else (k', n) # counter_add k kvs)"

definition Counter :: "'a list \<Rightarrow> ('a \<times> nat) list" where
  "Counter xs = foldl (\<lambda>c k. counter_add k c) [] xs"

text \<open>\<open>counts[k]\<close> on a Counter: zero for an absent key.\<close>

definition counter_get :: "('a \<times> nat) list \<Rightarrow> 'a \<Rightarrow> nat" where
  "counter_get counts k = (case map_of counts k of None \<Rightarrow> 0 | Some c \<Rightarrow> c)"

text \<open>
  \<open>max(d, key=d.get)\<close> and \<open>d.most_common(1)[0][0]\<close>: the first key, in insertion order,
  whose count is greatest; \<open>None\<close> on the empty dictionary, where Python raises.
\<close>

fun max_by_count :: "('a \<times> nat) list \<Rightarrow> 'a option" where
  "max_by_count [] = None"
| "max_by_count (kv # kvs) =
     Some (fst (foldl (\<lambda>best kv'. if snd best < snd kv' then kv' else best) kv kvs))"


section \<open>Per-community rule engine\<close>

definition has_unit :: "nat \<times> row \<Rightarrow> bool" where
  "has_unit ir = (Unit_Number (snd ir) \<noteq> None)"

subsection \<open>Anomaly and postal extension exclusion\<close>

definition anomaly_indices_of :: "dataframe \<Rightarrow> nat list" where
  "anomaly_indices_of subname_df =
     map fst (filter (\<lambda>(idx, row). detect_unit_anomalies (Unit_Number row) \<noteq> None) subname_df)"

text \<open>The test on one row inside the loop over the Plus 4 codes.\<close>

definition plus4_anomaly :: "row \<Rightarrow> bool" where
  "plus4_anomaly row =
     (case Plus_4_Code row of
        None \<Rightarrow> False
      | Some plus4 \<Rightarrow>
          (let plus4_str = strip plus4;
               zip_str = (case Zip row of Some zip_code \<Rightarrow> strip zip_code | None \<Rightarrow> [])
           in (length plus4_str = 5 \<and> isdigit plus4_str) \<or> plus4_str = zip_str))"

definition plus4_anomaly_indices_of :: "string list \<Rightarrow> string \<Rightarrow> dataframe \<Rightarrow> nat list" where
  "plus4_anomaly_indices_of cols building_type subname_df =
     (if building_type \<in> set [''HOA'', ''Residential - MDU'', ''SFA'']
         \<and> ''Plus 4 Code'' \<in> set cols
      then map fst (filter (\<lambda>(idx, row). plus4_anomaly row) subname_df)
      else [])"

subsection \<open>Oversize flag and condo-style detection\<close>

definition oversize_flags :: "dataframe \<Rightarrow> flag_entry list" where
  "oversize_flags subname_df =
     (if length subname_df > 800
      then map (\<lambda>(idx, row). (idx, Oversized (length subname_df), row)) subname_df
      else [])"

text \<open>\<open>nunique\<close> counts the distinct values that are not missing.\<close>

definition unique_streets_of :: "dataframe \<Rightarrow> nat" where
  "unique_streets_of subname_df =
     length (remdups (List.map_filter (\<lambda>(idx, row). Street_Address row) subname_df))"

definition is_condo_style_of :: "dataframe \<Rightarrow> bool" where
  "is_condo_style_of subname_df =
     (let unique_streets = unique_streets_of subname_df;
          total_addresses = length subname_df;
          with_units = length (filter has_unit subname_df)
      in unique_streets \<le> 3 \<and> ratio_gt_08 with_units total_addresses \<and> total_addresses > 50)"

subsection \<open>Majority-format exclusion\<close>

definition standard_formats :: "FormatTag list" where
  "standard_formats = [unit_format, apt_format, number_only]"

definition anomalous_formats :: "FormatTag list" where
  "anomalous_formats = [ste_format, building_format, hash_b_format, hash_format, other_format]"

definition non_majority :: "FormatTag \<Rightarrow> nat \<times> row \<Rightarrow> bool" where
  "non_majority majority_standard_format ir =
     (let row_format = get_unit_format_type (Unit_Number (snd ir))
      in row_format \<noteq> majority_standard_format \<and> row_format \<noteq> no_unit)"

definition mdu_format_flag :: "FormatTag \<Rightarrow> nat \<times> row \<Rightarrow> flag_entry" where
  "mdu_format_flag majority_standard_format ir =
     (let row_format = get_unit_format_type (Unit_Number (snd ir))
      in (fst ir,
          (if row_format \<in> set anomalous_formats
           then MDU_anomalous_format row_format majority_standard_format
           else MDU_minority_format row_format majority_standard_format),
          snd ir))"

text \<open>
  The block guarded by \<open>is_mdu and len(format_counts) > 1\<close>: the labels of the rows of a
  non-majority format, and their flag entries.
\<close>

definition majority_format_exclusion ::
  "bool \<Rightarrow> (FormatTag \<times> nat) list \<Rightarrow> dataframe \<Rightarrow> nat list \<times> flag_entry list" where
  "majority_format_exclusion is_mdu format_counts subname_df =
     (if is_mdu \<and> length format_counts > 1 then
        (let standard_format_counts =
               filter (\<lambda>(fmt, count). fmt \<in> set standard_formats) format_counts
         in case max_by_count standard_format_counts of
              None \<Rightarrow> ([], [])
            | Some majority_standard_format \<Rightarrow>
                (let excluded = filter (non_majority majority_standard_format) subname_df
                 in (map fst excluded, map (mdu_format_flag majority_standard_format) excluded)))
      else ([], []))"

subsection \<open>Street-level deduplication\<close>

text \<open>
  \<open>groupby('Street Address')\<close>: one group for each street address that is not missing, in
  ascending order of the address; the rows of a group keep their order.
\<close>

definition groupby_street :: "dataframe \<Rightarrow> (string \<times> dataframe) list" where
  "groupby_street df =
     map (\<lambda>street_address.
            (street_address, filter (\<lambda>(idx, row). Street_Address row = Some street_address) df))
         (sort (remdups (List.map_filter (\<lambda>(idx, row). Street_Address row) df)))"

text \<open>The body of the loop over the street groups, on the keep and remove lists.\<close>

definition dedup_street_group ::
  "bool \<Rightarrow> dataframe \<Rightarrow> nat list \<times> nat list \<Rightarrow> dataframe \<Rightarrow> nat list \<times> nat list" where
  "dedup_street_group mdu_logic subname_df acc grp =
     (let keep_addresses = fst acc;
          remove_addresses = snd acc;
          no_unit_indices = map fst (filter (\<lambda>ir. \<not> has_unit ir) grp);
          with_unit_indices = map fst (filter has_unit grp)
      in if mdu_logic then
           (if no_unit_indices \<noteq> [] \<and> with_unit_indices \<noteq> [] then
              (keep_addresses @ with_unit_indices, remove_addresses @ no_unit_indices)
            else if with_unit_indices \<noteq> [] \<and> no_unit_indices = [] then
              (keep_addresses @ with_unit_indices, remove_addresses)
            else if no_unit_indices \<noteq> [] \<and> with_unit_indices = [] then
              (let total_with_units = length (filter has_unit subname_df);
                   total_in_subname = length subname_df
               in if total_in_subname > 0 \<and> ratio_ge_08 total_with_units total_in_subname
                  then (keep_addresses, remove_addresses @ no_unit_indices)
                  else (keep_addresses @ no_unit_indices, remove_addresses))
            else (keep_addresses, remove_addresses))
         else
           (if no_unit_indices \<noteq> [] \<and> with_unit_indices \<noteq> [] then
              (keep_addresses @ no_unit_indices, remove_addresses @ with_unit_indices)
            else if no_unit_indices \<noteq> [] \<and> with_unit_indices = [] then
              (keep_addresses @ no_unit_indices, remove_addresses)
            else if no_unit_indices = [] \<and> with_unit_indices \<noteq> [] then
              (keep_addresses @ with_unit_indices, remove_addresses)
            else (keep_addresses, remove_addresses)))"

definition street_dedup ::
  "bool \<Rightarrow> dataframe \<Rightarrow> nat list \<times> nat list \<Rightarrow> nat list \<times> nat list" where
  "street_dedup mdu_logic subname_df acc =
     foldl (dedup_street_group mdu_logic subname_df) acc (map snd (groupby_street subname_df))"

subsection \<open>Minority-format flag after deduplication\<close>

definition minority_format_flags ::
  "bool \<Rightarrow> FormatTag list \<Rightarrow> (FormatTag \<times> nat) list \<Rightarrow> dataframe
     \<Rightarrow> nat list \<Rightarrow> nat list \<Rightarrow> flag_entry list" where
  "minority_format_flags is_mdu all_formats format_counts subname_df
       keep_addresses remove_addresses =
     (if \<not> is_mdu \<and> length format_counts > 1 then
        (case max_by_count format_counts of
           None \<Rightarrow> []
         | Some majority_format \<Rightarrow>
             (let total = length all_formats;
                  majority_count = counter_get format_counts majority_format
              in if ratio_gt_08 majority_count total then
                   map (\<lambda>(idx, row).
                          (idx,
                           Minority_unit_format (get_unit_format_type (Unit_Number row))
                             majority_format,
                           row))
                     (filter (\<lambda>(idx, row).
                                (idx \<notin> set keep_addresses \<and> idx \<notin> set remove_addresses)
                                \<and> get_unit_format_type (Unit_Number row) \<noteq> majority_format
                                \<and> get_unit_format_type (Unit_Number row) \<noteq> no_unit)
                        subname_df)
                 else []))
      else [])"

subsection \<open>One-off override\<close>

text \<open>
  \<open>keep_addresses.remove(single_idx)\<close> deletes the first occurrence. The case of an empty
  selection, where \<open>index[0]\<close> raises, is behind a count of one and is never reached.
\<close>

definition one_off_override ::
  "dataframe \<Rightarrow> nat list \<Rightarrow> nat list \<Rightarrow> nat list \<times> nat list \<times> flag_entry list" where
  "one_off_override subname_df keep_addresses remove_addresses =
     (let total_in_subname = length subname_df;
          no_unit_count = length (filter (\<lambda>ir. \<not> has_unit ir) subname_df);
          with_unit_count = total_in_subname - no_unit_count
      in if total_in_subname > 10 then
           (if no_unit_count = 1 \<and> with_unit_count > 10 then
              (case filter (\<lambda>ir. \<not> has_unit ir) subname_df of
                 [] \<Rightarrow> (keep_addresses, remove_addresses, [])
               | (single_idx, single_row) # _ \<Rightarrow>
                   ((if single_idx \<in> set keep_addresses
                     then remove1 single_idx keep_addresses else keep_addresses),
                    remove_addresses @ [single_idx],
                    [(single_idx, One_off_without_unit with_unit_count, single_row)]))
            else if with_unit_count = 1 \<and> no_unit_count > 10 then
              (case filter has_unit subname_df of
                 [] \<Rightarrow> (keep_addresses, remove_addresses, [])
               | (single_idx, single_row) # _ \<Rightarrow>
                   ((if single_idx \<in> set keep_addresses
                     then remove1 single_idx keep_addresses else keep_addresses),
                    remove_addresses @ [single_idx],
                    [(single_idx, One_off_with_unit no_unit_count, single_row)]))
            else (keep_addresses, remove_addresses, []))
         else (keep_addresses, remove_addresses, []))"

subsection \<open>The engine\<close>

text \<open>
  \<open>process_roe_subname\<close>, with the names of the columns of the frame as first argument. The
  three early returns are the three tests for an empty frame. The result is the keep list,
  the remove list and the flag entries.
\<close>

definition process_roe_subname ::
  "string list \<Rightarrow> dataframe \<Rightarrow> string \<Rightarrow> string
     \<Rightarrow> nat list \<times> nat list \<times> flag_entry list" where
  "process_roe_subname cols subname_df0 subname building_type =
     (let anomaly_indices = anomaly_indices_of subname_df0;
          subname_df1 = drop_rows subname_df0 anomaly_indices;
          remove1 = anomaly_indices
      in if length subname_df1 = 0 then ([], remove1, [])
      else
      let plus4_anomaly_indices = plus4_anomaly_indices_of cols building_type subname_df1;
          subname_df2 = drop_rows subname_df1 plus4_anomaly_indices;
          remove2 = remove1 @ plus4_anomaly_indices
      in if length subname_df2 = 0 then ([], remove2, [])
      else
      let flagged3 = oversize_flags subname_df2;
          is_mdu = (building_type = ''Residential - MDU'');
          is_condo_style = is_condo_style_of subname_df2;
          all_formats = map (\<lambda>(idx, row). get_unit_format_type (Unit_Number row)) subname_df2;
          format_counts = Counter all_formats;
          excl = majority_format_exclusion is_mdu format_counts subname_df2;
          non_majority_format_indices = fst excl;
          flagged5 = flagged3 @ snd excl;
          subname_df = drop_rows subname_df2 non_majority_format_indices
      in if length subname_df = 0 then ([], remove2, flagged5)
      else
      let kr = street_dedup (is_mdu \<or> is_condo_style) subname_df ([], remove2);
          flagged7 = flagged5 @
            minority_format_flags is_mdu all_formats format_counts subname_df (fst kr) (snd kr);
          one_off = one_off_override subname_df (fst kr) (snd kr)
      in (fst one_off, fst (snd one_off), flagged7 @ snd (snd one_off)))"


section \<open>Initial sort, grouping and aggregation\<close>

text \<open>
  The loaded frame carries the labels \<open>0, 1, 2, ...\<close> of a fresh range index.
\<close>

definition indexed :: "row list \<Rightarrow> dataframe" where
  "indexed rs = zip [0..<length rs] rs"

text \<open>\<open>df[df['Building Type'] == t]\<close>.\<close>

definition of_building_type :: "string \<Rightarrow> dataframe \<Rightarrow> dataframe" where
  "of_building_type t df = filter (\<lambda>(idx, row). Building_Type row = t) df"

definition roe_types :: "string list" where
  "roe_types = [''Residential - MDU'', ''SFA'', ''HOA'', ''Mobile'']"

text \<open>
  \<open>initial_sort\<close>: the Public, Commercial, Competitive and Other tabs, and the ROE candidates
  it returns.
\<close>

definition initial_sort ::
  "dataframe \<Rightarrow> (dataframe \<times> dataframe \<times> dataframe \<times> dataframe) \<times> dataframe" where
  "initial_sort df =
     ((of_building_type ''Residential'' df,
       of_building_type ''Commercial'' df,
       of_building_type ''Competitive'' df,
       of_building_type ''Other'' df),
      filter (\<lambda>(idx, row). Building_Type row \<in> set roe_types) df)"

text \<open>
  \<open>groupby(['Subname', 'Building Type'])\<close>: one group for each pair of values, in ascending
  order of the pair; the rows of a group keep their order.
\<close>

definition groupby_subname_type :: "dataframe \<Rightarrow> ((string \<times> string) \<times> dataframe) list" where
  "groupby_subname_type df =
     map (\<lambda>key. (key, filter (\<lambda>(idx, row). (Subname row, Building_Type row) = key) df))
         (sort (remdups (map (\<lambda>(idx, row). (Subname row, Building_Type row)) df)))"

text \<open>
  \<open>sort_values\<close> sorts in ascending order with the missing values last. The model sorts
  stably: rows with equal keys keep their order.
\<close>

definition nan_last :: "string option \<Rightarrow> bool \<times> string" where
  "nan_last v = (case v of None \<Rightarrow> (True, []) | Some s \<Rightarrow> (False, s))"

definition sort_values :: "(row \<Rightarrow> string option) \<Rightarrow> dataframe \<Rightarrow> dataframe" where
  "sort_values col df = sort_key (\<lambda>(idx, row). nan_last (col row)) df"

text \<open>The body of the loop over the communities, on the three accumulated lists.\<close>

definition process_community ::
  "string list \<Rightarrow> nat list \<times> nat list \<times> flag_entry list
     \<Rightarrow> (string \<times> string) \<times> dataframe \<Rightarrow> nat list \<times> nat list \<times> flag_entry list" where
  "process_community cols acc g =
     (let subname = fst (fst g);
          building_type = snd (fst g);
          subname_df =
            (if subname = ''No Subname''
             then (if ''Street Name'' \<in> set cols
                   then sort_values Street_Name (snd g)
                   else sort_values Street_Address (snd g))
             else snd g);
          res = process_roe_subname cols subname_df subname building_type
      in (fst acc @ fst res, fst (snd acc) @ fst (snd res), snd (snd acc) @ snd (snd res)))"

text \<open>A row of the spaced ROE tab: a blank row, or a row with its \<open>Unit Count\<close> cell.\<close>

datatype roe_row = Blank | Entry "nat option" row

text \<open>
  The loop of \<open>add_spacing_to_roe\<close>, with the state \<open>prev_subname\<close> and
  \<open>first_in_community\<close>; \<open>subname_counts\<close> is the dictionary of \<open>value_counts\<close>.
\<close>

fun spacing_loop ::
  "(string \<times> nat) list \<Rightarrow> string option \<Rightarrow> bool \<Rightarrow> dataframe \<Rightarrow> roe_row list" where
  "spacing_loop subname_counts prev_subname first_in_community [] = []"
| "spacing_loop subname_counts prev_subname first_in_community ((idx, row) # rest) =
     (let current_subname = Subname row;
          changed = (prev_subname \<noteq> None \<and> Some current_subname \<noteq> prev_subname);
          first_in_community = (if changed then True else first_in_community);
          counted = (first_in_community \<and> map_of subname_counts current_subname \<noteq> None)
      in (if changed then [Blank] else []) @
         Entry (if counted then map_of subname_counts current_subname else None) row #
         spacing_loop subname_counts (Some current_subname)
           (if counted then False else first_in_community) rest)"

definition add_spacing_to_roe :: "dataframe \<Rightarrow> roe_row list" where
  "add_spacing_to_roe ROE =
     (if length ROE = 0 then []
      else spacing_loop (Counter (map (\<lambda>(idx, row). Subname row) ROE)) None True ROE)"

text \<open>
  The tabs after \<open>process_roe_deduplication\<close>: \<open>ROE_kept\<close> is the ROE tab as first built from
  the keep list, \<open>ROE\<close> the tab after sorting and spacing.
\<close>

record tabs =
  Public :: dataframe
  Commercial :: dataframe
  ROE_kept :: dataframe
  ROE :: "roe_row list"
  Competitive :: dataframe
  Other :: dataframe
  Remove :: dataframe
  Flagged :: "flag_entry list"

definition sort_roe :: "string list \<Rightarrow> dataframe \<Rightarrow> dataframe" where
  "sort_roe cols df =
     (if ''Street Name'' \<in> set cols
      then sort_key (\<lambda>(idx, row).
             (Subname row, nan_last (Street_Name row), nan_last (Street_Address row))) df
      else sort_key (\<lambda>(idx, row). (Subname row, nan_last (Street_Address row))) df)"

definition process_roe_deduplication ::
  "string list \<Rightarrow> dataframe
     \<Rightarrow> dataframe \<times> roe_row list \<times> dataframe \<times> flag_entry list" where
  "process_roe_deduplication cols roe_candidates =
     (let acc = foldl (process_community cols) ([], [], [])
                  (groupby_subname_type roe_candidates);
          keep_indices = fst acc;
          remove_indices = fst (snd acc);
          kept = loc roe_candidates keep_indices
      in (kept,
          add_spacing_to_roe (sort_roe cols kept),
          loc roe_candidates remove_indices,
          snd (snd acc)))"

text \<open>\<open>initial_sort\<close> followed by \<open>process_roe_deduplication\<close>, on the loaded rows.\<close>

definition sort_addresses :: "string list \<Rightarrow> row list \<Rightarrow> tabs" where
  "sort_addresses cols rs =
     (let s = initial_sort (indexed rs);
          d = process_roe_deduplication cols (snd s)
      in \<lparr>Public = fst (fst s),
          Commercial = fst (snd (fst s)),
          ROE_kept = fst d,
          ROE = fst (snd d),
          Competitive = fst (snd (snd (fst s))),
          Other = snd (snd (snd (fst s))),
          Remove = fst (snd (snd d)),
          Flagged = snd (snd (snd d))\<rparr>)"


section \<open>The decision of the street-level deduplication, record by record\<close>

text \<open>
  The rows of a frame that share the street address of a given row, and the test
  \<open>percent_with_units >= 0.8\<close> on the whole frame.
\<close>

definition same_street :: "dataframe \<Rightarrow> nat \<times> row \<Rightarrow> dataframe" where
  "same_street df ir = filter (\<lambda>jr. Street_Address (snd jr) = Street_Address (snd ir)) df"

definition mostly_units :: "dataframe \<Rightarrow> bool" where
  "mostly_units df = (length df > 0 \<and> ratio_ge_08 (length (filter has_unit df)) (length df))"

text \<open>
  Whether the loop body puts a row into the keep list (otherwise into the remove list),
  read off the branches of \<open>dedup_street_group\<close>.
\<close>

definition kept_by_dedup :: "bool \<Rightarrow> dataframe \<Rightarrow> nat \<times> row \<Rightarrow> bool" where
  "kept_by_dedup mdu_logic df ir =
     (if mdu_logic
      then has_unit ir \<or> (\<not> list_ex has_unit (same_street df ir) \<and> \<not> mostly_units df)
      else \<not> has_unit ir \<or> \<not> list_ex (\<lambda>jr. \<not> has_unit jr) (same_street df ir))"

text \<open>The rows of a frame in the order in which the loop over the street groups meets them.\<close>

definition street_order :: "dataframe \<Rightarrow> dataframe" where
  "street_order df = concat (map snd (groupby_street df))"


text \<open>The frames that survive the anomaly exclusion and the postal extension exclusion.\<close>

definition after_anomalies :: "dataframe \<Rightarrow> dataframe" where
  "after_anomalies df = drop_rows df (anomaly_indices_of df)"

definition after_plus4 :: "string list \<Rightarrow> string \<Rightarrow> dataframe \<Rightarrow> dataframe" where
  "after_plus4 cols building_type df =
     drop_rows (after_anomalies df)
       (plus4_anomaly_indices_of cols building_type (after_anomalies df))"

text \<open>The flag entries written by the majority-format exclusion.\<close>

definition is_format_exclusion :: "flag_entry \<Rightarrow> bool" where
  "is_format_exclusion e =
     (case fst (snd e) of
        MDU_anomalous_format row_format majority \<Rightarrow> True
      | MDU_minority_format row_format majority \<Rightarrow> True
      | _ \<Rightarrow> False)"

definition format_excluded :: "flag_entry list \<Rightarrow> nat set" where
  "format_excluded flagged = fst ` {e \<in> set flagged. is_format_exclusion e}"


section \<open>The layout of the spaced ROE tab, community by community\<close>

text \<open>
  The maximal runs of consecutive rows with one \<open>Subname\<close>: each run is its first row and
  the rows that follow it.
\<close>

fun subname_runs :: "dataframe \<Rightarrow> ((nat \<times> row) \<times> dataframe) list" where
  "subname_runs [] = []"
| "subname_runs (ir # rest) =
     (case subname_runs rest of
        [] \<Rightarrow> [(ir, [])]
      | (jr, g) # gs \<Rightarrow>
          if Subname (snd ir) = Subname (snd jr) then (ir, jr # g) # gs
          else (ir, []) # (jr, g) # gs)"

text \<open>
  What the claim says of the rows of one community: the first row carries the number of
  kept records of the community, the rows after it carry no count.
\<close>

definition community_rows :: "dataframe \<Rightarrow> (nat \<times> row) \<times> dataframe \<Rightarrow> roe_row list" where
  "community_rows kept run =
     Entry (Some (length (filter (\<lambda>ir. Subname (snd ir) = Subname (snd (fst run))) kept)))
       (snd (fst run)) #
     map (\<lambda>ir. Entry None (snd ir)) (snd run)"

text \<open>What the claim says of the tab: the communities in turn, one blank row between two.\<close>

fun spaced :: "roe_row list list \<Rightarrow> roe_row list" where
  "spaced [] = []"
| "spaced [c] = c"
| "spaced (c # c' # cs) = c @ Blank # spaced (c' # cs)"


text \<open>The rows of the communities after the first, each behind its blank row.\<close>

definition rest_rows :: "dataframe \<Rightarrow> ((nat \<times> row) \<times> dataframe) list \<Rightarrow> roe_row list" where
  "rest_rows kept gs = concat (map (\<lambda>g. Blank # community_rows kept g) gs)"


section \<open>The loop over the communities, community by community\<close>

text \<open>
  The frame that the loop body hands to \<open>process_roe_subname\<close> for one group, and the
  result of that call.
\<close>

definition prepared :: "string list \<Rightarrow> (string \<times> string) \<times> dataframe \<Rightarrow> dataframe" where
  "prepared cols g =
     (if fst (fst g) = ''No Subname''
      then (if ''Street Name'' \<in> set cols
            then sort_values Street_Name (snd g)
            else sort_values Street_Address (snd g))
      else snd g)"

definition community_result ::
  "string list \<Rightarrow> (string \<times> string) \<times> dataframe \<Rightarrow> nat list \<times> nat list \<times> flag_entry list" where
  "community_result cols g =
     process_roe_subname cols (prepared cols g) (fst (fst g)) (snd (fst g))"

text \<open>
  The ROE candidates of the loaded rows, and the three lists accumulated over their
  communities.
\<close>

definition roe_candidates_of :: "row list \<Rightarrow> dataframe" where
  "roe_candidates_of rs = snd (initial_sort (indexed rs))"

definition decisions_of ::
  "string list \<Rightarrow> row list \<Rightarrow> nat list \<times> nat list \<times> flag_entry list" where
  "decisions_of cols rs =
     foldl (process_community cols) ([], [], []) (groupby_subname_type (roe_candidates_of rs))"


section \<open>Example data\<close>

definition example_row :: "string option \<Rightarrow> string option \<Rightarrow> string \<Rightarrow> string \<Rightarrow> row" where
  "example_row street unit building_type subname =
     \<lparr>ID = ''id'', Street_Address = street, Unit_Number = unit,
      Building_Type = building_type, Subname = subname, City = None, Zip = None,
      Plus_4_Code = None, Zone = None, Street_Name = None\<rparr>"

text \<open>
  One record without unit on its own street and eleven records with a unit on another, in
  one community.
\<close>

definition lone_office_rows :: "string \<Rightarrow> row list" where
  "lone_office_rows building_type =
     example_row (Some ''1 Office Way'') None building_type ''Oaks'' #
     replicate 11 (example_row (Some ''5 Main St'') (Some ''UNIT 7'') building_type ''Oaks'')"

text \<open>Three records with a unit on one street, one of them in another format.\<close>

definition mixed_format_rows :: "string \<Rightarrow> row list" where
  "mixed_format_rows building_type =
     [example_row (Some ''1 A St'') (Some ''UNIT 1'') building_type ''Oaks'',
      example_row (Some ''1 A St'') (Some ''UNIT 2'') building_type ''Oaks'',
      example_row (Some ''1 A St'') (Some ''APT 3'') building_type ''Oaks'']"


text \<open>Two streets, each with a record without unit and a record with a unit.\<close>

definition paired_rows :: "string \<Rightarrow> row list" where
  "paired_rows building_type =
     [example_row (Some ''1 A St'') None building_type ''Oaks'',
      example_row (Some ''1 A St'') (Some ''UNIT 1'') building_type ''Oaks'',
      example_row (Some ''2 B St'') (Some ''UNIT 1'') building_type ''Oaks'',
      example_row (Some ''2 B St'') None building_type ''Oaks'']"

text \<open>A single record whose unit names an office.\<close>

definition office_rows :: "row list" where
  "office_rows = [example_row (Some ''1 A St'') (Some ''OFFICE'') ''SFA'' ''Oaks'']"


text \<open>
  A record whose Plus 4 value is the four digits of its postal code, the postal code being
  followed by a space.
\<close>

definition padded_zip_rows :: "row list" where
  "padded_zip_rows =
     [(example_row (Some ''1 A St'') None ''SFA'' ''Oaks'')
        \<lparr>Zip := Some ''2134 '', Plus_4_Code := Some ''2134''\<rparr>]"

text \<open>A record with a five-digit Plus 4 value and a record with a four-digit one.\<close>

definition five_digit_plus4_rows :: "string \<Rightarrow> row list" where
  "five_digit_plus4_rows building_type =
     [(example_row (Some ''1 A St'') None building_type ''Oaks'')
        \<lparr>Zip := Some ''78701'', Plus_4_Code := Some ''00012''\<rparr>,
      (example_row (Some ''2 B St'') None building_type ''Oaks'')
        \<lparr>Zip := Some ''78701'', Plus_4_Code := Some ''0012''\<rparr>]"


text \<open>
  53 records on one street: one without unit, one with the unit APT 3 and 51 with the unit
  UNIT 7.
\<close>

definition condo_rows :: "string \<Rightarrow> row list" where
  "condo_rows building_type =
     example_row (Some ''9 Lake Dr'') None building_type ''Lakeside'' #
     example_row (Some ''9 Lake Dr'') (Some ''APT 3'') building_type ''Lakeside'' #
     replicate 51 (example_row (Some ''9 Lake Dr'') (Some ''UNIT 7'') building_type ''Lakeside'')"


text \<open>Two kept records of the community Pines and twelve of the community Oaks.\<close>

definition two_community_rows :: "row list" where
  "two_community_rows =
     replicate 2 (example_row (Some ''3 C St'') None ''HOA'' ''Pines'') @
     replicate 12 (example_row (Some ''5 Main St'') (Some ''UNIT 7'') ''HOA'' ''Oaks'')"


text \<open>
  The three records of the mixed community, a Residential record and a Commercial record.
\<close>

definition routing_example_rows :: "row list" where
  "routing_example_rows =
     mixed_format_rows ''Residential - MDU'' @
     [example_row (Some ''7 D St'') None ''Residential'' ''No Subname'',
      example_row (Some ''8 E St'') (Some ''STE 100'') ''Commercial'' ''No Subname'']"


text \<open>
  One street with a record without unit, whose Plus 4 value has five digits, and a record
  with a unit.
\<close>

definition plus4_paired_rows :: "row list" where
  "plus4_paired_rows =
     [(example_row (Some ''1 A St'') None ''SFA'' ''Oaks'')\<lparr>Plus_4_Code := Some ''12345''\<rparr>,
      example_row (Some ''1 A St'') (Some ''UNIT 1'') ''SFA'' ''Oaks'']"

text \<open>Two communities of one name: two HOA records and three SFA records.\<close>

definition same_name_rows :: "row list" where
  "same_name_rows =
     [example_row (Some ''1 A St'') None ''HOA'' ''Oaks'',
      example_row (Some ''3 C St'') None ''HOA'' ''Oaks'',
      example_row (Some ''2 B St'') None ''SFA'' ''Oaks'',
      example_row (Some ''4 D St'') None ''SFA'' ''Oaks'',
      example_row (Some ''5 E St'') None ''SFA'' ''Oaks'']"


section \<open>The ratio tests as comparisons of quotients\<close>

text \<open>
  For a positive denominator the two ratio tests are the comparisons of the exact quotient
  with eight tenths.
\<close>

lemma ratio_gt_08_real: "0 < b \<Longrightarrow> ratio_gt_08 a b \<longleftrightarrow> real a / real b > 8 / 10"
proof -
  assume "0 < b"
  then have "real a / real b > 8 / 10 \<longleftrightarrow> real (4 * b) < real (5 * a)"
    by (simp add: field_simps)
  also have "\<dots> \<longleftrightarrow> 4 * b < 5 * a"
    by (rule of_nat_less_iff)
  finally show ?thesis
    by (simp add: ratio_gt_08_def)
qed

lemma ratio_ge_08_real: "0 < b \<Longrightarrow> ratio_ge_08 a b \<longleftrightarrow> real a / real b \<ge> 8 / 10"
proof -
  assume "0 < b"
  then have "real a / real b \<ge> 8 / 10 \<longleftrightarrow> real (4 * b) \<le> real (5 * a)"
    by (simp add: field_simps)
  also have "\<dots> \<longleftrightarrow> 4 * b \<le> 5 * a"
    by (rule of_nat_le_iff)
  finally show ?thesis
    by (simp add: ratio_ge_08_def)
qed


section \<open>Properties of the format classifier\<close>

lemma isspace_upper_char: "isspace (upper_char c) = isspace c"
  unfolding isspace_def upper_char_def whitespace_def
  by (simp split: option.splits)

lemma upper_char_idem: "upper_char (upper_char c) = upper_char c"
  unfolding upper_char_def
  by (simp split: option.splits)

lemma upper_idem: "upper (upper s) = upper s"
  by (simp add: upper_def upper_char_idem)

lemma dropWhile_isspace_upper:
  "dropWhile isspace (map upper_char s) = map upper_char (dropWhile isspace s)"
  by (induction s) (simp_all add: isspace_upper_char)

lemma strip_upper: "strip (upper s) = upper (strip s)"
  by (simp add: strip_def upper_def dropWhile_isspace_upper rev_map)

lemma dropWhile_fixed: "xs = [] \<or> \<not> P (hd xs) \<Longrightarrow> dropWhile P xs = xs"
  by (cases xs) auto

lemma dropWhile_hd: "dropWhile P xs \<noteq> [] \<Longrightarrow> \<not> P (hd (dropWhile P xs))"
  by (metis hd_dropWhile)

lemma last_dropWhile: "dropWhile P xs \<noteq> [] \<Longrightarrow> last (dropWhile P xs) = last xs"
  by (induction xs) (auto split: if_splits)

lemma strip_idem: "strip (strip s) = strip s"
proof -
  define a where "a = dropWhile isspace s"
  define b where "b = dropWhile isspace (rev a)"
  have sb: "strip s = rev b"
    by (simp add: strip_def a_def b_def)
  have front: "dropWhile isspace (rev b) = rev b"
  proof (cases "b = []")
    case True
    then show ?thesis by simp
  next
    case False
    then have ra: "rev a \<noteq> []"
      by (auto simp: b_def)
    then have a_ne: "a \<noteq> []" by simp
    have "last b = last (rev a)"
      using False unfolding b_def by (rule last_dropWhile)
    also have "\<dots> = hd a"
      using a_ne by (simp add: last_rev)
    finally have "hd (rev b) = hd a"
      using False by (simp add: hd_rev)
    moreover have "\<not> isspace (hd a)"
      using a_ne unfolding a_def by (rule dropWhile_hd)
    ultimately show ?thesis
      by (intro dropWhile_fixed) simp
  qed
  have rear: "dropWhile isspace b = b"
    unfolding b_def by (rule dropWhile_idem)
  show ?thesis
    unfolding sb by (simp add: strip_def [of "rev b"] front rear)
qed

lemmas string_eval =
  strip_def upper_def upper_char_def isspace_def whitespace_def startswith_def
  match_digits_def isdigit_char_def isdigit_def

text \<open>
  Claim C3. \<open>get_unit_format_type\<close> is a total function from an optional unit string to one
  of the nine format tags (it is a function of the logic, so it returns one value on every
  input). It returns \<open>unit_format\<close> on "Unit 6", \<open>apt_format\<close> on "APT 6", \<open>number_only\<close>
  on "6", \<open>ste_format\<close> on "STE 100", \<open>building_format\<close> on "BLDG J", \<open>hash_b_format\<close> on
  "# B-1234", \<open>hash_format\<close> on "# 6" and \<open>no_unit\<close> on a missing value. The result depends
  only on the trimmed string and not on the case of its letters, and the rules are tried
  in the specified order on the trimmed, upper-cased string.
\<close>

theorem classify_unit_total_and_examples:
  "tag_name (get_unit_format_type u) \<in>
     set [''no_unit'', ''unit_format'', ''apt_format'', ''number_only'', ''ste_format'',
          ''building_format'', ''hash_b_format'', ''hash_format'', ''other_format'']
   \<and> get_unit_format_type (Some ''Unit 6'') = unit_format
   \<and> get_unit_format_type (Some ''APT 6'') = apt_format
   \<and> get_unit_format_type (Some ''6'') = number_only
   \<and> get_unit_format_type (Some ''STE 100'') = ste_format
   \<and> get_unit_format_type (Some ''BLDG J'') = building_format
   \<and> get_unit_format_type (Some ''# B-1234'') = hash_b_format
   \<and> get_unit_format_type (Some ''# 6'') = hash_format
   \<and> get_unit_format_type None = no_unit
   \<and> get_unit_format_type (Some s) = get_unit_format_type (Some (strip s))
   \<and> (upper s = upper t \<longrightarrow> get_unit_format_type (Some s) = get_unit_format_type (Some t))
   \<and> get_unit_format_type (Some s) =
       (let x = upper (strip s) in
        if startswith x ''UNIT'' then unit_format
        else if startswith x ''APT'' then apt_format
        else if x \<noteq> [] \<and> list_all isdigit_char x then number_only
        else if startswith x ''STE'' then ste_format
        else if contains x ''BLDG'' \<or> contains x ''BUILDING'' then building_format
        else if startswith x ''#'' \<and> contains x ''B-'' then hash_b_format
        else if startswith x ''#'' then hash_format
        else other_format)"
proof -
  have nine: "tag_name (get_unit_format_type u) \<in>
     set [''no_unit'', ''unit_format'', ''apt_format'', ''number_only'', ''ste_format'',
          ''building_format'', ''hash_b_format'', ''hash_format'', ''other_format'']"
    by (cases "get_unit_format_type u") simp_all
  have e1: "get_unit_format_type (Some ''Unit 6'') = unit_format"
    by (simp add: get_unit_format_type_def string_eval)
  have e2: "get_unit_format_type (Some ''APT 6'') = apt_format"
    by (simp add: get_unit_format_type_def string_eval)
  have e3: "get_unit_format_type (Some ''6'') = number_only"
    by (simp add: get_unit_format_type_def string_eval)
  have e4: "get_unit_format_type (Some ''STE 100'') = ste_format"
    by (simp add: get_unit_format_type_def string_eval)
  have e5: "get_unit_format_type (Some ''BLDG J'') = building_format"
    by (simp add: get_unit_format_type_def string_eval)
  have e6: "get_unit_format_type (Some ''# B-1234'') = hash_b_format"
    by (simp add: get_unit_format_type_def string_eval)
  have e7: "get_unit_format_type (Some ''# 6'') = hash_format"
    by (simp add: get_unit_format_type_def string_eval)
  have e8: "get_unit_format_type None = no_unit"
    by (simp add: get_unit_format_type_def)
  have trim: "get_unit_format_type (Some s) = get_unit_format_type (Some (strip s))"
    by (simp add: get_unit_format_type_def strip_idem)
  have ci: "upper s = upper t \<longrightarrow> get_unit_format_type (Some s) = get_unit_format_type (Some t)"
  proof
    assume "upper s = upper t"
    then have "upper (strip s) = upper (strip t)"
      by (simp add: strip_upper [symmetric])
    then show "get_unit_format_type (Some s) = get_unit_format_type (Some t)"
      by (simp add: get_unit_format_type_def)
  qed
  have nl: "upper (strip s) \<noteq> [] \<Longrightarrow> last (upper (strip s)) \<noteq> CHR 0x0A"
  proof
    assume ne: "upper (strip s) \<noteq> []" and l: "last (upper (strip s)) = CHR 0x0A"
    define b where "b = dropWhile isspace (rev (dropWhile isspace s))"
    have sb: "strip s = rev b" by (simp add: strip_def b_def)
    have bne: "b \<noteq> []" using ne sb by (simp add: upper_def)
    have "last (upper (strip s)) = upper_char (hd b)"
      using bne by (simp add: sb upper_def last_map last_rev)
    moreover have "\<not> isspace (hd b)"
      using bne unfolding b_def by (rule dropWhile_hd)
    then have "\<not> isspace (upper_char (hd b))"
      by (simp add: isspace_upper_char)
    ultimately show False
      using l by (simp add: isspace_def whitespace_def)
  qed
  have md: "match_digits (upper (strip s)) =
      (upper (strip s) \<noteq> [] \<and> list_all isdigit_char (upper (strip s)))"
    using nl by (auto simp: match_digits_def Let_def)
  have order: "get_unit_format_type (Some s) =
       (let x = upper (strip s) in
        if startswith x ''UNIT'' then unit_format
        else if startswith x ''APT'' then apt_format
        else if x \<noteq> [] \<and> list_all isdigit_char x then number_only
        else if startswith x ''STE'' then ste_format
        else if contains x ''BLDG'' \<or> contains x ''BUILDING'' then building_format
        else if startswith x ''#'' \<and> contains x ''B-'' then hash_b_format
        else if startswith x ''#'' then hash_format
        else other_format)"
    unfolding get_unit_format_type_def Let_def option.case md by (rule refl)
  show ?thesis
    using nine e1 e2 e3 e4 e5 e6 e7 e8 trim ci order by (intro conjI)
qed

theorem classify_unit_total_and_examples_witness:
  "upper ''  bldg j '' = upper ''  BLDG J ''
   \<and> get_unit_format_type (Some ''  bldg j '') = get_unit_format_type (Some ''  BLDG J '')
   \<and> get_unit_format_type (Some ''  bldg j '') = building_format"
proof -
  have u: "upper ''  bldg j '' = upper ''  BLDG J ''"
    by (simp add: string_eval)
  have v: "get_unit_format_type (Some ''  BLDG J '') = building_format"
    by (simp add: get_unit_format_type_def string_eval)
  from classify_unit_total_and_examples [of None "''  bldg j ''" "''  BLDG J ''"]
  have "upper ''  bldg j '' = upper ''  BLDG J '' \<longrightarrow>
      get_unit_format_type (Some ''  bldg j '') = get_unit_format_type (Some ''  BLDG J '')"
    by (elim conjE)
  with u v show ?thesis by simp
qed


section \<open>Properties of the street-level deduplication and of the engine\<close>

lemma mset_concat_groups:
  "distinct ks \<Longrightarrow>
   mset (concat (map (\<lambda>k. filter (\<lambda>x. f x = k) xs) ks)) = mset (filter (\<lambda>x. f x \<in> set ks) xs)"
proof (induction ks)
  case Nil
  then show ?case by simp
next
  case (Cons k ks)
  have "mset (filter (\<lambda>x. f x = k) xs) + mset (filter (\<lambda>x. f x \<in> set ks) xs)
      = mset (filter (\<lambda>x. f x \<in> set (k # ks)) xs)"
    using Cons.prems by (induction xs) auto
  with Cons show ?case by simp
qed

lemma dedup_street_group_eq:
  assumes g: "g = filter (\<lambda>ir. Street_Address (snd ir) = Some s) df"
  shows "dedup_street_group m df acc g =
    (fst acc @ map fst (filter (kept_by_dedup m df) g),
     snd acc @ map fst (filter (\<lambda>ir. \<not> kept_by_dedup m df ir) g))"
proof -
  have same: "same_street df ir = g" if "ir \<in> set g" for ir
    using that by (simp add: g same_street_def)
  let ?no = "filter (\<lambda>ir. \<not> has_unit ir) g"
  let ?with = "filter has_unit g"
  have ex_with: "list_ex has_unit g \<longleftrightarrow> ?with \<noteq> []"
    by (simp add: list_ex_iff filter_empty_conv)
  have ex_no: "list_ex (\<lambda>jr. \<not> has_unit jr) g \<longleftrightarrow> ?no \<noteq> []"
    by (simp add: list_ex_iff filter_empty_conv)
  have kept: "kept_by_dedup m df ir =
     (if m then has_unit ir \<or> (?with = [] \<and> \<not> mostly_units df)
      else \<not> has_unit ir \<or> ?no = [])" if "ir \<in> set g" for ir
    using same [OF that] ex_with ex_no by (simp add: kept_by_dedup_def)
  have all_with: "?no = [] \<Longrightarrow> ?with = g"
    by (simp add: filter_empty_conv filter_id_conv)
  have all_no: "?with = [] \<Longrightarrow> ?no = g"
    by (simp add: filter_empty_conv filter_id_conv)
  have K: "filter (kept_by_dedup m df) g =
     filter (\<lambda>ir. if m then has_unit ir \<or> (?with = [] \<and> \<not> mostly_units df)
      else \<not> has_unit ir \<or> ?no = []) g"
    by (rule filter_cong) (simp_all add: kept)
  have R: "filter (\<lambda>ir. \<not> kept_by_dedup m df ir) g =
     filter (\<lambda>ir. \<not> (if m then has_unit ir \<or> (?with = [] \<and> \<not> mostly_units df)
      else \<not> has_unit ir \<or> ?no = [])) g"
    by (rule filter_cong) (simp_all add: kept)
  show ?thesis
    unfolding K R
    using all_with all_no
    by (cases m; cases "?no = []"; cases "?with = []"; cases "mostly_units df")
       (simp_all add: dedup_street_group_def Let_def mostly_units_def)
qed


lemma foldl_dedup_street_group:
  assumes "\<forall>g\<in>set gs. \<exists>s. g = filter (\<lambda>ir. Street_Address (snd ir) = Some s) df"
  shows "foldl (dedup_street_group m df) acc gs =
    (fst acc @ map fst (filter (kept_by_dedup m df) (concat gs)),
     snd acc @ map fst (filter (\<lambda>ir. \<not> kept_by_dedup m df ir) (concat gs)))"
  using assms
proof (induction gs arbitrary: acc)
  case Nil
  then show ?case by simp
next
  case (Cons g gs)
  then obtain s where g: "g = filter (\<lambda>ir. Street_Address (snd ir) = Some s) df"
    by auto
  show ?case
    using Cons by (simp add: dedup_street_group_eq [OF g])
qed

lemma groups_of_groupby_street:
  "map snd (groupby_street df) =
     map (\<lambda>s. filter (\<lambda>ir. Street_Address (snd ir) = Some s) df)
       (sort (remdups (List.map_filter (\<lambda>(idx, row). Street_Address row) df)))"
  by (simp add: groupby_street_def case_prod_unfold comp_def)

lemma street_dedup_eq:
  "street_dedup m df acc =
    (fst acc @ map fst (filter (kept_by_dedup m df) (street_order df)),
     snd acc @ map fst (filter (\<lambda>ir. \<not> kept_by_dedup m df ir) (street_order df)))"
  unfolding street_dedup_def street_order_def
  by (rule foldl_dedup_street_group) (auto simp: groups_of_groupby_street)

lemma set_street_keys:
  "set (List.map_filter (\<lambda>(idx, row). Street_Address row) df) =
     {s. \<exists>ir\<in>set df. Street_Address (snd ir) = Some s}"
  by (force simp: List.map_filter_def case_prod_unfold image_iff)

lemma mset_street_order:
  "mset (street_order df) = mset (filter (\<lambda>ir. Street_Address (snd ir) \<noteq> None) df)"
proof -
  let ?ks = "sort (remdups (List.map_filter (\<lambda>(idx, row). Street_Address row) df))"
  have "street_order df =
      concat (map (\<lambda>k. filter (\<lambda>ir. Street_Address (snd ir) = k) df) (map Some ?ks))"
    by (simp add: street_order_def groups_of_groupby_street comp_def)
  moreover have "distinct (map Some ?ks)"
    by (simp add: distinct_map)
  ultimately have "mset (street_order df) =
      mset (filter (\<lambda>ir. Street_Address (snd ir) \<in> set (map Some ?ks)) df)"
    by (simp only: mset_concat_groups)
  also have "filter (\<lambda>ir. Street_Address (snd ir) \<in> set (map Some ?ks)) df =
      filter (\<lambda>ir. Street_Address (snd ir) \<noteq> None) df"
    by (rule filter_cong) (auto simp: set_street_keys image_iff)
  finally show ?thesis .
qed

lemma set_street_order:
  "set (street_order df) = {ir \<in> set df. Street_Address (snd ir) \<noteq> None}"
proof -
  have "set (street_order df) = set_mset (mset (street_order df))" by simp
  also have "\<dots> = {ir \<in> set df. Street_Address (snd ir) \<noteq> None}"
    unfolding mset_street_order by auto
  finally show ?thesis .
qed

lemma distinct_street_order:
  assumes "distinct (map fst df)"
  shows "distinct (map fst (street_order df))"
proof -
  have "image_mset fst (mset (street_order df)) =
      image_mset fst (mset (filter (\<lambda>ir. Street_Address (snd ir) \<noteq> None) df))"
    by (simp only: mset_street_order)
  then have "mset (map fst (street_order df)) =
      mset (map fst (filter (\<lambda>ir. Street_Address (snd ir) \<noteq> None) df))"
    by (simp only: mset_map)
  moreover have "distinct (map fst (filter (\<lambda>ir. Street_Address (snd ir) \<noteq> None) df))"
    using assms by (rule distinct_map_filter)
  ultimately show ?thesis
    by (metis mset_eq_imp_distinct_iff)
qed

lemma labels_drop_rows: "fst ` set (drop_rows df X) = fst ` set df - set X"
  by (auto simp: drop_rows_def image_iff)

lemma set_drop_rows: "set (drop_rows df X) = {ir \<in> set df. fst ir \<notin> set X}"
  by (auto simp: drop_rows_def)

lemma distinct_drop_rows: "distinct (map fst df) \<Longrightarrow> distinct (map fst (drop_rows df X))"
  unfolding drop_rows_def by (rule distinct_map_filter)

lemma anomaly_indices_subset: "set (anomaly_indices_of df) \<subseteq> fst ` set df"
  by (auto simp: anomaly_indices_of_def)

lemma plus4_anomaly_indices_subset: "set (plus4_anomaly_indices_of cols bt df) \<subseteq> fst ` set df"
  by (auto simp: plus4_anomaly_indices_of_def)

lemma format_excluded_append [simp]:
  "format_excluded (xs @ ys) = format_excluded xs \<union> format_excluded ys"
  by (auto simp: format_excluded_def)

lemma format_excluded_Nil [simp]: "format_excluded [] = {}"
  by (simp add: format_excluded_def)

lemma is_format_exclusion_mdu_format_flag: "is_format_exclusion (mdu_format_flag maj ir)"
  by (simp add: is_format_exclusion_def mdu_format_flag_def Let_def)

lemma fst_mdu_format_flag: "fst (mdu_format_flag maj ir) = fst ir"
  by (simp add: mdu_format_flag_def Let_def)

lemma format_excluded_mdu_flags:
  "format_excluded (map (mdu_format_flag maj) xs) = fst ` set xs"
proof -
  have "{e \<in> set (map (mdu_format_flag maj) xs). is_format_exclusion e} =
      mdu_format_flag maj ` set xs"
    by (auto simp: is_format_exclusion_mdu_format_flag)
  then show ?thesis
    by (simp add: format_excluded_def image_image fst_mdu_format_flag)
qed

lemma format_excluded_exclusion:
  "format_excluded (snd (majority_format_exclusion b fc df)) =
     set (fst (majority_format_exclusion b fc df))"
  by (simp add: majority_format_exclusion_def Let_def format_excluded_mdu_flags
        split: option.splits)

lemma exclusion_subset: "set (fst (majority_format_exclusion b fc df)) \<subseteq> fst ` set df"
  by (auto simp: majority_format_exclusion_def Let_def split: option.splits)

lemma format_excluded_oversize: "format_excluded (oversize_flags df) = {}"
  by (auto simp: format_excluded_def oversize_flags_def is_format_exclusion_def)

lemma minority_format_flags_shape:
  "minority_format_flags b af fc df k r = [] \<or>
   (\<exists>maj. minority_format_flags b af fc df k r =
      map (\<lambda>ir. (fst ir, Minority_unit_format (get_unit_format_type (Unit_Number (snd ir))) maj,
                  snd ir))
        (filter (\<lambda>ir. (fst ir \<notin> set k \<and> fst ir \<notin> set r) \<and>
            (get_unit_format_type (Unit_Number (snd ir)) \<noteq> maj
             \<and> get_unit_format_type (Unit_Number (snd ir)) \<noteq> no_unit)) df))"
proof (cases "\<not> b \<and> length fc > 1")
  case False
  then show ?thesis by (auto simp: minority_format_flags_def)
next
  case guard: True
  show ?thesis
  proof (cases "max_by_count fc")
    case None
    then show ?thesis using guard by (simp add: minority_format_flags_def)
  next
    case (Some maj)
    show ?thesis
    proof (cases "ratio_gt_08 (counter_get fc maj) (length af)")
      case False
      then show ?thesis using guard Some by (simp add: minority_format_flags_def)
    next
      case True
      have "minority_format_flags b af fc df k r =
        map (\<lambda>ir. (fst ir, Minority_unit_format (get_unit_format_type (Unit_Number (snd ir))) maj,
                  snd ir))
        (filter (\<lambda>ir. (fst ir \<notin> set k \<and> fst ir \<notin> set r) \<and>
            (get_unit_format_type (Unit_Number (snd ir)) \<noteq> maj
             \<and> get_unit_format_type (Unit_Number (snd ir)) \<noteq> no_unit)) df)"
        using guard Some True
        by (simp add: minority_format_flags_def case_prod_unfold)
      then show ?thesis by (intro disjI2 exI [of _ maj])
    qed
  qed
qed

lemma format_excluded_minority:
  "format_excluded (minority_format_flags b af fc df k r) = {}"
  using minority_format_flags_shape [of b af fc df k r]
  by (auto simp: format_excluded_def is_format_exclusion_def)

lemma one_off_override_sets:
  assumes "distinct k"
  shows "\<exists>S. S \<subseteq> fst ` set df
     \<and> set (fst (one_off_override df k r)) = set k - S
     \<and> set (fst (snd (one_off_override df k r))) = set r \<union> S
     \<and> format_excluded (snd (snd (one_off_override df k r))) = {}"
proof -
  let ?no = "filter (\<lambda>ir. \<not> has_unit ir) df"
  let ?with = "filter has_unit df"
  have len: "length ?with + length ?no = length df"
    by (rule sum_length_filter_compl)
  consider (a) "length df > 10" "length ?no = 1" "length df - length ?no > 10"
    | (b) "length df > 10" "\<not> (length ?no = 1 \<and> length df - length ?no > 10)"
          "length df - length ?no = 1" "length ?no > 10"
    | (c) "\<not> (length df > 10 \<and> length ?no = 1 \<and> length df - length ?no > 10)"
          "\<not> (length df > 10 \<and> length df - length ?no = 1 \<and> length ?no > 10)"
    by blast
  then show ?thesis
  proof cases
    case a
    then obtain i row rest where no: "?no = (i, row) # rest"
      by (cases ?no) auto
    then have "(i, row) \<in> set ?no" by simp
    then have mem: "i \<in> fst ` set df" by force
    have res: "one_off_override df k r =
        ((if i \<in> set k then remove1 i k else k), r @ [i], [(i, One_off_without_unit (length df - length ?no), row)])"
      using a no by (simp add: one_off_override_def Let_def)
    show ?thesis
      using mem assms
      by (intro exI [of _ "{i}"]) (auto simp: res format_excluded_def is_format_exclusion_def)
  next
    case b
    then have "length ?with = 1"
      using len by simp
    then obtain i row rest where w: "?with = (i, row) # rest"
      by (cases ?with) auto
    then have "(i, row) \<in> set ?with" by simp
    then have mem: "i \<in> fst ` set df" by force
    have res: "one_off_override df k r =
        ((if i \<in> set k then remove1 i k else k), r @ [i], [(i, One_off_with_unit (length ?no), row)])"
      using b w by (simp add: one_off_override_def Let_def)
    show ?thesis
      using mem assms
      by (intro exI [of _ "{i}"]) (auto simp: res format_excluded_def is_format_exclusion_def)
  next
    case c
    then have "one_off_override df k r = (k, r, [])"
      by (auto simp: one_off_override_def Let_def)
    then show ?thesis
      by (intro exI [of _ "{}"]) simp
  qed
qed

lemma process_roe_subname_unfold:
  "process_roe_subname cols df0 sub bt =
    (let df1 = after_anomalies df0; A = anomaly_indices_of df0 in
     if df1 = [] then ([], A, []) else
     let P = plus4_anomaly_indices_of cols bt df1; df2 = after_plus4 cols bt df0 in
     if df2 = [] then ([], A @ P, []) else
     let is_mdu = (bt = ''Residential - MDU'');
         af = map (\<lambda>(idx, row). get_unit_format_type (Unit_Number row)) df2;
         fc = Counter af;
         excl = majority_format_exclusion is_mdu fc df2;
         df3 = drop_rows df2 (fst excl) in
     if df3 = [] then ([], A @ P, oversize_flags df2 @ snd excl) else
     let kr = street_dedup (is_mdu \<or> is_condo_style_of df2) df3 ([], A @ P);
         oo = one_off_override df3 (fst kr) (snd kr) in
     (fst oo, fst (snd oo),
      (oversize_flags df2 @ snd excl) @
      minority_format_flags is_mdu af fc df3 (fst kr) (snd kr) @ snd (snd oo)))"
  by (simp add: process_roe_subname_def after_anomalies_def after_plus4_def Let_def)

lemma filter_split_disjoint:
  assumes "distinct (map fst xs)"
  shows "set (map fst (filter P xs)) \<inter> set (map fst (filter (\<lambda>x. \<not> P x) xs)) = {}"
  using assms by (induction xs) (auto simp: image_iff)

lemma filter_split_union:
  "set (map fst (filter P xs)) \<union> set (map fst (filter (\<lambda>x. \<not> P x) xs)) = fst ` set xs"
  by auto

lemma keep_remove_partition:
  assumes d: "distinct (map fst df0)"
    and st: "\<forall>ir\<in>set df0. Street_Address (snd ir) \<noteq> None"
  shows "set (fst (process_roe_subname cols df0 sub bt))
           \<inter> set (fst (snd (process_roe_subname cols df0 sub bt))) = {}
       \<and> set (fst (process_roe_subname cols df0 sub bt))
           \<union> set (fst (snd (process_roe_subname cols df0 sub bt)))
         = fst ` set df0 - format_excluded (snd (snd (process_roe_subname cols df0 sub bt)))
       \<and> format_excluded (snd (snd (process_roe_subname cols df0 sub bt))) \<subseteq> fst ` set df0"
proof -
  define df1 where "df1 = after_anomalies df0"
  define A where "A = anomaly_indices_of df0"
  define P where "P = plus4_anomaly_indices_of cols bt df1"
  define df2 where "df2 = after_plus4 cols bt df0"
  define is_mdu where "is_mdu = (bt = ''Residential - MDU'')"
  define af where "af = map (\<lambda>(idx, row). get_unit_format_type (Unit_Number row)) df2"
  define fc where "fc = Counter af"
  define excl where "excl = majority_format_exclusion is_mdu fc df2"
  define df3 where "df3 = drop_rows df2 (fst excl)"
  define kr where "kr = street_dedup (is_mdu \<or> is_condo_style_of df2) df3 ([], A @ P)"
  define oo where "oo = one_off_override df3 (fst kr) (snd kr)"
  define res where "res = process_roe_subname cols df0 sub bt"
  have res: "res =
     (if df1 = [] then ([], A, []) else
      if df2 = [] then ([], A @ P, []) else
      if df3 = [] then ([], A @ P, oversize_flags df2 @ snd excl) else
      (fst oo, fst (snd oo),
        (oversize_flags df2 @ snd excl) @
        minority_format_flags is_mdu af fc df3 (fst kr) (snd kr) @ snd (snd oo)))"
    unfolding res_def process_roe_subname_unfold Let_def
    by (simp only: df1_def A_def P_def df2_def is_mdu_def af_def fc_def excl_def df3_def
          kr_def oo_def Let_def)
  let ?L0 = "fst ` set df0"
  have A: "set A \<subseteq> ?L0"
    unfolding A_def by (rule anomaly_indices_subset)
  have L1: "fst ` set df1 = ?L0 - set A"
    by (simp add: df1_def after_anomalies_def labels_drop_rows A_def)
  have P: "set P \<subseteq> ?L0 - set A"
    unfolding P_def using plus4_anomaly_indices_subset [of cols bt df1] L1 by simp
  have df2: "df2 = drop_rows df1 P"
    by (simp add: df2_def after_plus4_def df1_def P_def)
  have L2: "fst ` set df2 = ?L0 - set A - set P"
    by (simp add: df2 labels_drop_rows L1)
  have E: "set (fst excl) \<subseteq> ?L0 - set A - set P"
    unfolding excl_def using exclusion_subset [of is_mdu fc df2] L2 by simp
  have L3: "fst ` set df3 = ?L0 - set A - set P - set (fst excl)"
    by (simp add: df3_def labels_drop_rows L2)
  have FE: "format_excluded (oversize_flags df2 @ snd excl) = set (fst excl)"
    by (simp add: format_excluded_oversize excl_def format_excluded_exclusion)
  show ?thesis
  proof (cases "df1 = []")
    case True
    then have "res = ([], A, [])" by (simp add: res)
    moreover from True L1 A have "set A = ?L0" by auto
    ultimately show ?thesis by (simp flip: res_def)
  next
    case n1: False
    show ?thesis
    proof (cases "df2 = []")
      case True
      then have "res = ([], A @ P, [])" using n1 by (simp add: res)
      moreover from True L2 A P have "set A \<union> set P = ?L0" by auto
      ultimately show ?thesis by (simp flip: res_def)
    next
      case n2: False
      show ?thesis
      proof (cases "df3 = []")
        case True
        then have r: "res = ([], A @ P, oversize_flags df2 @ snd excl)"
          using n1 n2 by (simp add: res)
        from True L3 have "?L0 - set A - set P - set (fst excl) = {}" by simp
        with A P E have "set A \<union> set P = ?L0 - set (fst excl)" by auto
        moreover have "format_excluded (snd (snd res)) = set (fst excl)"
          by (simp add: r format_excluded_oversize excl_def format_excluded_exclusion)
        moreover have "fst res = []" "fst (snd res) = A @ P"
          by (simp_all add: r)
        ultimately show ?thesis
          using E unfolding res_def [symmetric] by auto
      next
        case n3: False
        then have r: "res = (fst oo, fst (snd oo),
            (oversize_flags df2 @ snd excl) @
            minority_format_flags is_mdu af fc df3 (fst kr) (snd kr) @ snd (snd oo))"
          using n1 n2 by (simp add: res)
        let ?G = "street_order df3"
        let ?m = "is_mdu \<or> is_condo_style_of df2"
        let ?K = "map fst (filter (kept_by_dedup ?m df3) ?G)"
        let ?R = "map fst (filter (\<lambda>ir. \<not> kept_by_dedup ?m df3 ir) ?G)"
        have kr: "kr = (?K, (A @ P) @ ?R)"
          by (simp add: kr_def street_dedup_eq)
        have sub3: "set df3 \<subseteq> set df0"
          by (auto simp: df3_def df2 df1_def after_anomalies_def set_drop_rows)
        have d3: "distinct (map fst df3)"
          unfolding df3_def df2 df1_def after_anomalies_def
          by (intro distinct_drop_rows d)
        have "set ?G = set df3"
          using st sub3 by (auto simp: set_street_order)
        then have KR: "set ?K \<union> set ?R = ?L0 - set A - set P - set (fst excl)"
          using filter_split_union [of "kept_by_dedup ?m df3" ?G] L3 by simp
        have dG: "distinct (map fst ?G)"
          using d3 by (rule distinct_street_order)
        then have dis: "set ?K \<inter> set ?R = {}"
          by (rule filter_split_disjoint)
        have dK: "distinct ?K"
          using dG by (rule distinct_map_filter)
        have skr: "set (fst kr) = set ?K" "set (snd kr) = set A \<union> set P \<union> set ?R"
          by (simp_all add: kr Un_assoc)
        have "distinct (fst kr)"
          using dK by (simp add: kr)
        then have "\<exists>S. S \<subseteq> fst ` set df3
           \<and> set (fst oo) = set (fst kr) - S
           \<and> set (fst (snd oo)) = set (snd kr) \<union> S
           \<and> format_excluded (snd (snd oo)) = {}"
          unfolding oo_def by (rule one_off_override_sets)
        then obtain S where S: "S \<subseteq> fst ` set df3"
          and k: "set (fst oo) = set ?K - S"
          and rm: "set (fst (snd oo)) = set A \<union> set P \<union> set ?R \<union> S"
          and f: "format_excluded (snd (snd oo)) = {}"
          unfolding skr by blast
        have fl: "format_excluded (snd (snd res)) = set (fst excl)"
          by (simp add: r f format_excluded_minority format_excluded_oversize excl_def
                format_excluded_exclusion)
        have "set (fst res) \<inter> set (fst (snd res)) = {}"
          using KR dis by (auto simp: r k rm)
        moreover have "set (fst res) \<union> set (fst (snd res)) = ?L0 - set (fst excl)"
          using KR S L3 A P E by (auto simp: r k rm)
        ultimately show ?thesis
          using E unfolding res_def [symmetric] fl by auto
      qed
    qed
  qed
qed


section \<open>The keep and remove lists of a community\<close>

text \<open>
  Claim C1, as amended. In a community whose index labels are distinct and whose records all
  have a street address, the keep list and the remove list returned by \<open>process_roe_subname\<close>
  have no label in common, and together they hold every record of the community except
  those excluded by the majority-format stage, which are flagged and are in neither list.
\<close>

theorem keep_remove_partition_except_format_excluded:
  assumes "distinct (map fst subname_df)"
    and "\<forall>ir\<in>set subname_df. Street_Address (snd ir) \<noteq> None"
  shows "set (fst (process_roe_subname cols subname_df subname building_type))
           \<inter> set (fst (snd (process_roe_subname cols subname_df subname building_type))) = {}
       \<and> set (fst (process_roe_subname cols subname_df subname building_type))
           \<union> set (fst (snd (process_roe_subname cols subname_df subname building_type)))
         = fst ` set subname_df
             - format_excluded (snd (snd (process_roe_subname cols subname_df subname building_type)))
       \<and> format_excluded (snd (snd (process_roe_subname cols subname_df subname building_type)))
           \<subseteq> fst ` set subname_df"
  using assms by (rule keep_remove_partition)

lemma mixed_format_mdu_result:
  "process_roe_subname [] (indexed (mixed_format_rows ''Residential - MDU'')) ''Oaks''
      ''Residential - MDU'' =
     ([0, 1], [],
      [(2, MDU_minority_format apt_format unit_format,
        example_row (Some ''1 A St'') (Some ''APT 3'') ''Residential - MDU'' ''Oaks'')])"
  by code_simp

lemma indexed_mixed_format:
  "indexed (mixed_format_rows t) =
     [(0, example_row (Some ''1 A St'') (Some ''UNIT 1'') t ''Oaks''),
      (1, example_row (Some ''1 A St'') (Some ''UNIT 2'') t ''Oaks''),
      (2, example_row (Some ''1 A St'') (Some ''APT 3'') t ''Oaks'')]"
  by (simp add: indexed_def mixed_format_rows_def upt_rec)

theorem keep_remove_partition_except_format_excluded_witness:
  "distinct (map fst (indexed (mixed_format_rows ''Residential - MDU'')))
   \<and> list_all (\<lambda>ir. Street_Address (snd ir) \<noteq> None)
         (indexed (mixed_format_rows ''Residential - MDU''))
   \<and> set (fst (process_roe_subname [] (indexed (mixed_format_rows ''Residential - MDU''))
              ''Oaks'' ''Residential - MDU''))
       \<union> set (fst (snd (process_roe_subname [] (indexed (mixed_format_rows ''Residential - MDU''))
              ''Oaks'' ''Residential - MDU'')))
     = fst ` set (indexed (mixed_format_rows ''Residential - MDU'')) - {2}
   \<and> format_excluded (snd (snd (process_roe_subname []
         (indexed (mixed_format_rows ''Residential - MDU'')) ''Oaks'' ''Residential - MDU'')))
       = {2}"
proof -
  let ?df = "indexed (mixed_format_rows ''Residential - MDU'')"
  have d: "distinct (map fst ?df)"
    by (simp add: indexed_mixed_format)
  have s: "\<forall>ir\<in>set ?df. Street_Address (snd ir) \<noteq> None"
    by (simp add: indexed_mixed_format example_row_def)
  have f: "format_excluded (snd (snd (process_roe_subname [] ?df ''Oaks'' ''Residential - MDU'')))
      = {2}"
    by (auto simp: mixed_format_mdu_result format_excluded_def is_format_exclusion_def)
  from keep_remove_partition_except_format_excluded
         [OF d s, of "[]" "''Oaks''" "''Residential - MDU''"]
  have "set (fst (process_roe_subname [] ?df ''Oaks'' ''Residential - MDU''))
       \<union> set (fst (snd (process_roe_subname [] ?df ''Oaks'' ''Residential - MDU'')))
     = fst ` set ?df - {2}"
    unfolding f by blast
  with d s f show ?thesis
    by (simp add: list_all_iff)
qed

text \<open>
  The claim as stated fails: in a community of building type Residential - MDU with the units
  UNIT 1, UNIT 2 and APT 3 on one street, the third record is excluded by the majority-format
  stage and ends in neither the keep list nor the remove list.
\<close>

theorem format_excluded_record_in_neither_counterexample:
  "(2, example_row (Some ''1 A St'') (Some ''APT 3'') ''Residential - MDU'' ''Oaks'')
     \<in> set (indexed (mixed_format_rows ''Residential - MDU''))
   \<and> 2 \<notin> set (fst (process_roe_subname [] (indexed (mixed_format_rows ''Residential - MDU''))
                      ''Oaks'' ''Residential - MDU''))
   \<and> 2 \<notin> set (fst (snd (process_roe_subname [] (indexed (mixed_format_rows ''Residential - MDU''))
                      ''Oaks'' ''Residential - MDU'')))"
  unfolding mixed_format_mdu_result by (simp add: indexed_mixed_format)


section \<open>Street-level deduplication under the SFA/HOA policy\<close>

text \<open>
  On a frame that is handled with the SFA/HOA policy and in which every record has a street
  address and every street address has a record without unit and a record with a unit,
  the loop over the street groups keeps exactly the records without unit and removes
  exactly the records with a unit.
\<close>

lemma sfa_street_dedup:
  assumes "building_type \<noteq> ''Residential - MDU''"
    and "\<not> is_condo_style_of subname_df"
    and "\<forall>ir\<in>set subname_df.
           Street_Address (snd ir) \<noteq> None
           \<and> list_ex (\<lambda>jr. \<not> has_unit jr) (same_street subname_df ir)
           \<and> list_ex has_unit (same_street subname_df ir)"
  shows "set (fst (street_dedup
                (building_type = ''Residential - MDU'' \<or> is_condo_style_of subname_df)
                subname_df ([], remove_addresses)))
           = fst ` {ir \<in> set subname_df. \<not> has_unit ir}
       \<and> set (snd (street_dedup
                (building_type = ''Residential - MDU'' \<or> is_condo_style_of subname_df)
                subname_df ([], remove_addresses)))
           = set remove_addresses \<union> fst ` {ir \<in> set subname_df. has_unit ir}"
proof -
  let ?G = "street_order subname_df"
  have m: "(building_type = ''Residential - MDU'' \<or> is_condo_style_of subname_df) = False"
    using assms(1,2) by simp
  have G: "set ?G = set subname_df"
    using assms(3) by (auto simp: set_street_order)
  have kept: "kept_by_dedup False subname_df ir = (\<not> has_unit ir)" if "ir \<in> set ?G" for ir
    using that assms(3) G by (auto simp: kept_by_dedup_def)
  have K: "filter (kept_by_dedup False subname_df) ?G = filter (\<lambda>ir. \<not> has_unit ir) ?G"
    by (rule filter_cong) (simp_all add: kept)
  have R: "filter (\<lambda>ir. \<not> kept_by_dedup False subname_df ir) ?G = filter has_unit ?G"
    by (rule filter_cong) (simp_all add: kept)
  show ?thesis
    unfolding m street_dedup_eq K R using G by auto
qed

lemma indexed_paired:
  "indexed (paired_rows t) =
     [(0, example_row (Some ''1 A St'') None t ''Oaks''),
      (1, example_row (Some ''1 A St'') (Some ''UNIT 1'') t ''Oaks''),
      (2, example_row (Some ''2 B St'') (Some ''UNIT 1'') t ''Oaks''),
      (3, example_row (Some ''2 B St'') None t ''Oaks'')]"
  by (simp add: indexed_def paired_rows_def upt_rec)

section \<open>Communities emptied by the early exclusion stages\<close>

lemma plus4_anomaly_indices_Nil: "plus4_anomaly_indices_of cols bt [] = []"
  by (simp add: plus4_anomaly_indices_of_def)

text \<open>
  Claim C7, as amended. When no record of a community survives the anomaly exclusion and the
  postal extension exclusion, \<open>process_roe_subname\<close> returns at once with an empty keep list
  and no flag entry; its remove list holds the excluded records, which are all the records
  of the community.
\<close>

theorem degenerate_community_returns_early:
  assumes "after_plus4 cols building_type subname_df = []"
  shows "process_roe_subname cols subname_df subname building_type =
           ([],
            anomaly_indices_of subname_df @
              plus4_anomaly_indices_of cols building_type (after_anomalies subname_df),
            [])
       \<and> set (fst (snd (process_roe_subname cols subname_df subname building_type)))
           = fst ` set subname_df"
proof -
  let ?A = "anomaly_indices_of subname_df"
  let ?P = "plus4_anomaly_indices_of cols building_type (after_anomalies subname_df)"
  have eq: "process_roe_subname cols subname_df subname building_type = ([], ?A @ ?P, [])"
    using assms
    by (cases "after_anomalies subname_df = []")
       (simp_all add: process_roe_subname_unfold Let_def plus4_anomaly_indices_Nil)
  have "fst ` set (after_plus4 cols building_type subname_df)
      = fst ` set subname_df - set ?A - set ?P"
    by (simp add: after_plus4_def after_anomalies_def labels_drop_rows)
  with assms have "fst ` set subname_df \<subseteq> set ?A \<union> set ?P"
    by auto
  moreover have "set ?A \<subseteq> fst ` set subname_df"
    by (rule anomaly_indices_subset)
  moreover have "set ?P \<subseteq> fst ` set subname_df"
    using plus4_anomaly_indices_subset [of cols building_type "after_anomalies subname_df"]
    by (auto simp: after_anomalies_def labels_drop_rows)
  ultimately show ?thesis
    unfolding eq by auto
qed

lemma office_rows_eval:
  "after_plus4 [] ''SFA'' (indexed office_rows) = []"
  "process_roe_subname [] (indexed office_rows) ''Oaks'' ''SFA'' = ([], [0], [])"
  by code_simp+

theorem degenerate_community_returns_early_witness:
  "after_plus4 [] ''SFA'' (indexed office_rows) = []
   \<and> process_roe_subname [] (indexed office_rows) ''Oaks'' ''SFA'' = ([], [0], [])
   \<and> set (fst (snd (process_roe_subname [] (indexed office_rows) ''Oaks'' ''SFA'')))
       = fst ` set (indexed office_rows)"
proof -
  from degenerate_community_returns_early [OF office_rows_eval(1), of "''Oaks''"]
  have "set (fst (snd (process_roe_subname [] (indexed office_rows) ''Oaks'' ''SFA'')))
       = fst ` set (indexed office_rows)"
    by (rule conjunct2)
  with office_rows_eval show ?thesis
    by (intro conjI)
qed

text \<open>
  The claim as stated fails: a community whose only record has the unit OFFICE is emptied by
  the anomaly exclusion, and its record is returned in the remove list.
\<close>

theorem degenerate_community_contributes_to_remove_counterexample:
  "after_plus4 [] ''SFA'' (indexed office_rows) = []
   \<and> fst (snd (process_roe_subname [] (indexed office_rows) ''Oaks'' ''SFA'')) = [0]"
  by (simp add: office_rows_eval)

section \<open>The minority-format pass after deduplication\<close>

text \<open>
  Claim C9. In a community that is not Residential - MDU and whose records all have a street
  address, the loop over the street groups (under either policy, and from any keep and
  remove lists) puts every record of its frame into the keep list or the remove list, and
  the minority-format pass after it, which looks only at records in neither list, returns
  no flag entry.
\<close>

theorem non_mdu_dedup_assigns_all_and_flags_none:
  assumes "building_type \<noteq> ''Residential - MDU''"
    and "\<forall>ir\<in>set subname_df. Street_Address (snd ir) \<noteq> None"
  shows "fst ` set subname_df
           \<subseteq> set (fst (street_dedup mdu_logic subname_df (keep_addresses, remove_addresses)))
             \<union> set (snd (street_dedup mdu_logic subname_df (keep_addresses, remove_addresses)))
       \<and> minority_format_flags (building_type = ''Residential - MDU'') all_formats format_counts
           subname_df
           (fst (street_dedup mdu_logic subname_df (keep_addresses, remove_addresses)))
           (snd (street_dedup mdu_logic subname_df (keep_addresses, remove_addresses)))
         = []"
proof -
  let ?kr = "street_dedup mdu_logic subname_df (keep_addresses, remove_addresses)"
  have "set (street_order subname_df) = set subname_df"
    using assms(2) by (auto simp: set_street_order)
  then have "fst ` set subname_df =
      set (map fst (filter (kept_by_dedup mdu_logic subname_df) (street_order subname_df)))
      \<union> set (map fst (filter (\<lambda>ir. \<not> kept_by_dedup mdu_logic subname_df ir)
             (street_order subname_df)))"
    by (simp only: filter_split_union)
  then have all: "fst ` set subname_df \<subseteq> set (fst ?kr) \<union> set (snd ?kr)"
    by (auto simp: street_dedup_eq)
  have "minority_format_flags (building_type = ''Residential - MDU'') all_formats format_counts
           subname_df (fst ?kr) (snd ?kr) = []"
    using minority_format_flags_shape
      [of "building_type = ''Residential - MDU''" all_formats format_counts
          subname_df "fst ?kr" "snd ?kr"]
  proof (elim disjE exE)
    fix maj
    let ?F = "filter (\<lambda>ir. (fst ir \<notin> set (fst ?kr) \<and> fst ir \<notin> set (snd ?kr)) \<and>
            (get_unit_format_type (Unit_Number (snd ir)) \<noteq> maj
             \<and> get_unit_format_type (Unit_Number (snd ir)) \<noteq> no_unit)) subname_df"
    assume eq: "minority_format_flags (building_type = ''Residential - MDU'') all_formats
        format_counts subname_df (fst ?kr) (snd ?kr) =
      map (\<lambda>ir. (fst ir, Minority_unit_format (get_unit_format_type (Unit_Number (snd ir))) maj,
                  snd ir)) ?F"
    have "?F = []"
      unfolding filter_empty_conv using all by blast
    then show ?thesis
      unfolding eq by simp
  qed
  with all show ?thesis by simp
qed

theorem non_mdu_dedup_assigns_all_and_flags_none_witness:
  "''SFA'' \<noteq> ''Residential - MDU''
   \<and> list_all (\<lambda>ir. Street_Address (snd ir) \<noteq> None) (indexed (paired_rows ''SFA''))
   \<and> minority_format_flags (''SFA'' = ''Residential - MDU'')
         [no_unit, unit_format, unit_format, no_unit]
         (Counter [no_unit, unit_format, unit_format, no_unit])
         (indexed (paired_rows ''SFA''))
         (fst (street_dedup False (indexed (paired_rows ''SFA'')) ([], [])))
         (snd (street_dedup False (indexed (paired_rows ''SFA'')) ([], [])))
       = []"
proof -
  let ?df = "indexed (paired_rows ''SFA'')"
  have t: "''SFA'' \<noteq> ''Residential - MDU''" by simp
  have h: "\<forall>ir\<in>set ?df. Street_Address (snd ir) \<noteq> None"
    by (simp add: indexed_paired example_row_def)
  from non_mdu_dedup_assigns_all_and_flags_none
     [OF t h, of False "[]" "[]" "[no_unit, unit_format, unit_format, no_unit]"
        "Counter [no_unit, unit_format, unit_format, no_unit]"]
  show ?thesis
    using t h by (simp add: list_all_iff)
qed


section \<open>Bounds on the lists returned by the engine\<close>

lemma one_off_override_shape:
  "one_off_override df k r = (k, r, []) \<or>
   (\<exists>i row n. (i, row) \<in> set df \<and>
      (one_off_override df k r =
         ((if i \<in> set k then remove1 i k else k), r @ [i], [(i, One_off_without_unit n, row)])
       \<or> one_off_override df k r =
         ((if i \<in> set k then remove1 i k else k), r @ [i], [(i, One_off_with_unit n, row)])))"
proof -
  let ?no = "filter (\<lambda>ir. \<not> has_unit ir) df"
  let ?with = "filter has_unit df"
  have len: "length ?with + length ?no = length df"
    by (rule sum_length_filter_compl)
  consider (a) "length df > 10" "length ?no = 1" "length df - length ?no > 10"
    | (b) "length df > 10" "\<not> (length ?no = 1 \<and> length df - length ?no > 10)"
          "length df - length ?no = 1" "length ?no > 10"
    | (c) "\<not> (length df > 10 \<and> length ?no = 1 \<and> length df - length ?no > 10)"
          "\<not> (length df > 10 \<and> length df - length ?no = 1 \<and> length ?no > 10)"
    by blast
  then show ?thesis
  proof cases
    case a
    then obtain i row rest where no: "?no = (i, row) # rest"
      by (cases ?no) auto
    then have "(i, row) \<in> set ?no" by simp
    then have mem: "(i, row) \<in> set df" by simp
    have "one_off_override df k r =
        ((if i \<in> set k then remove1 i k else k), r @ [i],
         [(i, One_off_without_unit (length df - length ?no), row)])"
      using a no by (simp add: one_off_override_def Let_def)
    with mem show ?thesis by blast
  next
    case b
    then have "length ?with = 1"
      using len by simp
    then obtain i row rest where w: "?with = (i, row) # rest"
      by (cases ?with) auto
    then have "(i, row) \<in> set ?with" by simp
    then have mem: "(i, row) \<in> set df" by simp
    have "one_off_override df k r =
        ((if i \<in> set k then remove1 i k else k), r @ [i],
         [(i, One_off_with_unit (length ?no), row)])"
      using b w by (simp add: one_off_override_def Let_def)
    with mem show ?thesis by blast
  next
    case c
    then have "one_off_override df k r = (k, r, [])"
      by (auto simp: one_off_override_def Let_def)
    then show ?thesis by simp
  qed
qed

lemma one_off_override_bounds:
  "set (fst (one_off_override df k r)) \<subseteq> set k
   \<and> set r \<subseteq> set (fst (snd (one_off_override df k r)))
   \<and> fst ` set (snd (snd (one_off_override df k r))) \<subseteq> fst ` set df
   \<and> format_excluded (snd (snd (one_off_override df k r))) = {}"
proof -
  have rm: "set (remove1 i k) \<subseteq> set k" for i
    by (rule set_remove1_subset)
  from one_off_override_shape [of df k r] show ?thesis
  proof (elim disjE exE conjE)
    assume "one_off_override df k r = (k, r, [])"
    then show ?thesis by simp
  next
    fix i row n
    assume "(i, row) \<in> set df"
      and "one_off_override df k r =
         ((if i \<in> set k then remove1 i k else k), r @ [i], [(i, One_off_without_unit n, row)])"
    then show ?thesis
      using rm [of i] by (force simp: format_excluded_def is_format_exclusion_def)
  next
    fix i row n
    assume "(i, row) \<in> set df"
      and "one_off_override df k r =
         ((if i \<in> set k then remove1 i k else k), r @ [i], [(i, One_off_with_unit n, row)])"
    then show ?thesis
      using rm [of i] by (force simp: format_excluded_def is_format_exclusion_def)
  qed
qed

lemma oversize_flag_labels: "fst ` set (oversize_flags df) \<subseteq> fst ` set df"
  by (force simp: oversize_flags_def)

lemma exclusion_flag_indices:
  "map fst (snd (majority_format_exclusion b fc df)) = fst (majority_format_exclusion b fc df)"
  by (simp add: majority_format_exclusion_def Let_def fst_mdu_format_flag comp_def
        split: option.splits)

lemma exclusion_flag_labels:
  "fst ` set (snd (majority_format_exclusion b fc df)) \<subseteq> fst ` set df"
proof -
  have "fst ` set (snd (majority_format_exclusion b fc df)) =
      set (map fst (snd (majority_format_exclusion b fc df)))"
    by simp
  also have "\<dots> \<subseteq> fst ` set df"
    unfolding exclusion_flag_indices by (rule exclusion_subset)
  finally show ?thesis .
qed

lemma minority_flag_labels:
  "fst ` set (minority_format_flags b af fc df k r) \<subseteq> fst ` set df"
  using minority_format_flags_shape [of b af fc df k r]
  by (force simp: image_image)

lemma non_mdu_exclusion: "majority_format_exclusion False fc df = ([], [])"
  by (simp add: majority_format_exclusion_def)

lemma engine_bounds:
  "set (fst (process_roe_subname cols df0 sub bt)) \<subseteq> fst ` set (after_plus4 cols bt df0)
   \<and> set (anomaly_indices_of df0) \<union>
       set (plus4_anomaly_indices_of cols bt (after_anomalies df0))
         \<subseteq> set (fst (snd (process_roe_subname cols df0 sub bt)))
   \<and> fst ` set (snd (snd (process_roe_subname cols df0 sub bt)))
         \<subseteq> fst ` set (after_plus4 cols bt df0)"
proof -
  define df1 where "df1 = after_anomalies df0"
  define A where "A = anomaly_indices_of df0"
  define P where "P = plus4_anomaly_indices_of cols bt df1"
  define df2 where "df2 = after_plus4 cols bt df0"
  define is_mdu where "is_mdu = (bt = ''Residential - MDU'')"
  define af where "af = map (\<lambda>(idx, row). get_unit_format_type (Unit_Number row)) df2"
  define fc where "fc = Counter af"
  define excl where "excl = majority_format_exclusion is_mdu fc df2"
  define df3 where "df3 = drop_rows df2 (fst excl)"
  define kr where "kr = street_dedup (is_mdu \<or> is_condo_style_of df2) df3 ([], A @ P)"
  define oo where "oo = one_off_override df3 (fst kr) (snd kr)"
  define res where "res = process_roe_subname cols df0 sub bt"
  have res: "res =
     (if df1 = [] then ([], A, []) else
      if df2 = [] then ([], A @ P, []) else
      if df3 = [] then ([], A @ P, oversize_flags df2 @ snd excl) else
      (fst oo, fst (snd oo),
        (oversize_flags df2 @ snd excl) @
        minority_format_flags is_mdu af fc df3 (fst kr) (snd kr) @ snd (snd oo)))"
    unfolding res_def process_roe_subname_unfold Let_def
    by (simp only: df1_def A_def P_def df2_def is_mdu_def af_def fc_def excl_def df3_def
          kr_def oo_def Let_def)
  have P0: "df1 = [] \<Longrightarrow> P = []"
    by (simp add: P_def plus4_anomaly_indices_Nil)
  have L3: "fst ` set df3 \<subseteq> fst ` set df2"
    by (auto simp: df3_def set_drop_rows)
  have ov: "fst ` set (oversize_flags df2) \<subseteq> fst ` set df2"
    by (rule oversize_flag_labels)
  have ex: "fst ` set (snd excl) \<subseteq> fst ` set df2"
    unfolding excl_def by (rule exclusion_flag_labels)
  have mi: "fst ` set (minority_format_flags is_mdu af fc df3 (fst kr) (snd kr))
      \<subseteq> fst ` set df2"
    using minority_flag_labels [of is_mdu af fc df3 "fst kr" "snd kr"] L3 by blast
  have kr: "kr = (map fst (filter (kept_by_dedup (is_mdu \<or> is_condo_style_of df2) df3)
                     (street_order df3)),
      (A @ P) @ map fst (filter (\<lambda>ir. \<not> kept_by_dedup (is_mdu \<or> is_condo_style_of df2) df3 ir)
                     (street_order df3)))"
    by (simp add: kr_def street_dedup_eq)
  have K: "set (fst kr) \<subseteq> fst ` set df2"
    using L3 by (auto simp: kr set_street_order)
  have R: "set A \<union> set P \<subseteq> set (snd kr)"
    by (auto simp: kr)
  from one_off_override_bounds [of df3 "fst kr" "snd kr"]
  have o1: "set (fst oo) \<subseteq> set (fst kr)"
    and o2: "set (snd kr) \<subseteq> set (fst (snd oo))"
    and o3: "fst ` set (snd (snd oo)) \<subseteq> fst ` set df3"
    unfolding oo_def by blast+
  have k: "set (fst res) \<subseteq> fst ` set df2"
    using o1 K by (auto simp: res)
  have r: "set A \<union> set P \<subseteq> set (fst (snd res))"
    using o2 R P0 by (auto simp: res)
  have f: "fst ` set (snd (snd res)) \<subseteq> fst ` set df2"
  proof (cases "df1 = [] \<or> df2 = []")
    case True
    then show ?thesis by (auto simp: res)
  next
    case n: False
    show ?thesis
    proof (cases "df3 = []")
      case True
      then have "snd (snd res) = oversize_flags df2 @ snd excl"
        using n by (simp add: res)
      then show ?thesis using ov ex by (simp add: image_Un)
    next
      case False
      then have "snd (snd res) = (oversize_flags df2 @ snd excl) @
        minority_format_flags is_mdu af fc df3 (fst kr) (snd kr) @ snd (snd oo)"
        using n by (simp add: res)
      moreover have "fst ` set (snd (snd oo)) \<subseteq> fst ` set df2"
        using o3 L3 by blast
      ultimately show ?thesis using ov ex mi by (simp add: image_Un)
    qed
  qed
  show ?thesis
    using k r f unfolding res_def df2_def A_def P_def df1_def by blast
qed


section \<open>The postal extension stage\<close>

lemma plus4_anomaly_indices_iff:
  assumes "(idx, row) \<in> set df" and "distinct (map fst df)"
  shows "idx \<in> set (plus4_anomaly_indices_of cols bt df) \<longleftrightarrow>
     bt \<in> {''HOA'', ''Residential - MDU'', ''SFA''} \<and> ''Plus 4 Code'' \<in> set cols
     \<and> plus4_anomaly row"
proof -
  have "row' = row" if "(idx, row') \<in> set df" for row'
    using that assms by (meson eq_key_imp_eq_value)
  then have "(\<exists>row'. (idx, row') \<in> set df \<and> plus4_anomaly row') \<longleftrightarrow> plus4_anomaly row"
    using assms(1) by blast
  then show ?thesis
    by (auto simp: plus4_anomaly_indices_of_def image_iff)
qed

text \<open>
  Claim C6, as amended. Among the records that reach the postal extension stage, the stage
  removes a record if and only if the building type of the community is HOA,
  Residential - MDU or SFA, the frame has a Plus 4 Code column, the Plus 4 value of the record
  is not missing, and the trimmed value either is a five-digit numeric string or equals the
  trimmed postal code of the record. A record removed by this stage is in the remove list
  of the community, not in its keep list, and carries no flag entry. The statement leaves
  out the records with a missing postal code whose trimmed Plus 4 value is empty.
\<close>

theorem plus4_stage_removes_iff:
  assumes "distinct (map fst subname_df)"
    and "(idx, row) \<in> set (after_anomalies subname_df)"
    and "Zip row = None \<longrightarrow> (\<forall>plus4. Plus_4_Code row = Some plus4 \<longrightarrow> strip plus4 \<noteq> [])"
  shows "(idx \<in> set (plus4_anomaly_indices_of cols building_type (after_anomalies subname_df))
          \<longleftrightarrow>
          building_type \<in> {''HOA'', ''Residential - MDU'', ''SFA''}
          \<and> ''Plus 4 Code'' \<in> set cols
          \<and> (\<exists>plus4. Plus_4_Code row = Some plus4
                \<and> ((length (strip plus4) = 5 \<and> isdigit (strip plus4))
                    \<or> (\<exists>zip_code. Zip row = Some zip_code
                          \<and> strip plus4 = strip zip_code))))
       \<and> (idx \<in> set (plus4_anomaly_indices_of cols building_type (after_anomalies subname_df))
          \<longrightarrow>
          idx \<in> set (fst (snd (process_roe_subname cols subname_df subname building_type)))
          \<and> idx \<notin> set (fst (process_roe_subname cols subname_df subname building_type))
          \<and> idx \<notin> fst ` set (snd (snd (process_roe_subname cols subname_df subname building_type))))"
proof -
  let ?df1 = "after_anomalies subname_df"
  let ?P = "plus4_anomaly_indices_of cols building_type ?df1"
  have d1: "distinct (map fst ?df1)"
    unfolding after_anomalies_def using assms(1) by (rule distinct_drop_rows)
  have "plus4_anomaly row \<longleftrightarrow>
      (\<exists>plus4. Plus_4_Code row = Some plus4
                \<and> ((length (strip plus4) = 5 \<and> isdigit (strip plus4))
                    \<or> (\<exists>zip_code. Zip row = Some zip_code \<and> strip plus4 = strip zip_code)))"
    using assms(3)
    by (cases "Plus_4_Code row"; cases "Zip row") (auto simp: plus4_anomaly_def Let_def)
  with plus4_anomaly_indices_iff [OF assms(2) d1, of cols building_type]
  have first: "idx \<in> set ?P \<longleftrightarrow>
          building_type \<in> {''HOA'', ''Residential - MDU'', ''SFA''}
          \<and> ''Plus 4 Code'' \<in> set cols
          \<and> (\<exists>plus4. Plus_4_Code row = Some plus4
                \<and> ((length (strip plus4) = 5 \<and> isdigit (strip plus4))
                    \<or> (\<exists>zip_code. Zip row = Some zip_code \<and> strip plus4 = strip zip_code)))"
    by simp
  have "fst ` set (after_plus4 cols building_type subname_df) = fst ` set ?df1 - set ?P"
    by (simp add: after_plus4_def labels_drop_rows)
  with engine_bounds [of cols subname_df subname building_type]
  have second: "idx \<in> set ?P \<longrightarrow>
          idx \<in> set (fst (snd (process_roe_subname cols subname_df subname building_type)))
          \<and> idx \<notin> set (fst (process_roe_subname cols subname_df subname building_type))
          \<and> idx \<notin> fst ` set (snd (snd (process_roe_subname cols subname_df subname building_type)))"
    by blast
  from first second show ?thesis by (rule conjI)
qed

lemma five_digit_eval:
  "indexed (five_digit_plus4_rows t) =
     [(0, (example_row (Some ''1 A St'') None t ''Oaks'')
        \<lparr>Zip := Some ''78701'', Plus_4_Code := Some ''00012''\<rparr>),
      (1, (example_row (Some ''2 B St'') None t ''Oaks'')
        \<lparr>Zip := Some ''78701'', Plus_4_Code := Some ''0012''\<rparr>)]"
  "after_anomalies (indexed (five_digit_plus4_rows t)) = indexed (five_digit_plus4_rows t)"
  by (simp_all add: indexed_def five_digit_plus4_rows_def upt_rec after_anomalies_def
        anomaly_indices_of_def drop_rows_def detect_unit_anomalies_def example_row_def)

lemma five_digit_results:
  "process_roe_subname [''Plus 4 Code'', ''Zip''] (indexed (five_digit_plus4_rows ''SFA''))
      ''Oaks'' ''SFA'' = ([1], [0], [])"
  "process_roe_subname [''Plus 4 Code'', ''Zip''] (indexed (five_digit_plus4_rows ''Mobile''))
      ''Oaks'' ''Mobile'' = ([0, 1], [], [])"
  by code_simp+

theorem plus4_stage_removes_iff_witness:
  "distinct (map fst (indexed (five_digit_plus4_rows ''SFA'')))
   \<and> 0 \<in> set (plus4_anomaly_indices_of [''Plus 4 Code'', ''Zip''] ''SFA''
               (after_anomalies (indexed (five_digit_plus4_rows ''SFA''))))
   \<and> 0 \<in> set (fst (snd (process_roe_subname [''Plus 4 Code'', ''Zip'']
               (indexed (five_digit_plus4_rows ''SFA'')) ''Oaks'' ''SFA'')))
   \<and> 0 \<notin> fst ` set (snd (snd (process_roe_subname [''Plus 4 Code'', ''Zip'']
               (indexed (five_digit_plus4_rows ''SFA'')) ''Oaks'' ''SFA'')))"
proof -
  let ?df = "indexed (five_digit_plus4_rows ''SFA'')"
  let ?row = "(example_row (Some ''1 A St'') None ''SFA'' ''Oaks'')
        \<lparr>Zip := Some ''78701'', Plus_4_Code := Some ''00012''\<rparr>"
  have d: "distinct (map fst ?df)"
    by (simp add: five_digit_eval(1))
  have m: "(0, ?row) \<in> set (after_anomalies ?df)"
    unfolding five_digit_eval(2) by (simp add: five_digit_eval(1))
  have p: "length (strip ''00012'') = 5 \<and> isdigit (strip ''00012'')"
    by (simp add: string_eval)
  have z: "Zip ?row = None \<longrightarrow> (\<forall>plus4. Plus_4_Code ?row = Some plus4 \<longrightarrow> strip plus4 \<noteq> [])"
    by (simp add: example_row_def)
  from plus4_stage_removes_iff [OF d m z, of "[''Plus 4 Code'', ''Zip'']" "''SFA''" "''Oaks''"] p
  have "0 \<in> set (plus4_anomaly_indices_of [''Plus 4 Code'', ''Zip''] ''SFA'' (after_anomalies ?df))
      \<and> 0 \<in> set (fst (snd (process_roe_subname [''Plus 4 Code'', ''Zip''] ?df ''Oaks'' ''SFA'')))
      \<and> 0 \<notin> fst ` set (snd (snd (process_roe_subname [''Plus 4 Code'', ''Zip''] ?df
                 ''Oaks'' ''SFA'')))"
    by (simp add: example_row_def)
  with d show ?thesis by simp
qed

lemma padded_zip_eval:
  "indexed padded_zip_rows =
     [(0, (example_row (Some ''1 A St'') None ''SFA'' ''Oaks'')
        \<lparr>Zip := Some ''2134 '', Plus_4_Code := Some ''2134''\<rparr>)]"
  by (simp add: indexed_def padded_zip_rows_def)

text \<open>
  The claim as stated fails: a record of an SFA community with the Plus 4 value 2134 and
  the postal code 2134 followed by a space is removed, although its trimmed Plus 4 value is
  not a five-digit number and differs from the postal code as written.
\<close>

theorem padded_postal_code_removed_counterexample:
  "0 \<in> set (plus4_anomaly_indices_of [''Plus 4 Code'', ''Zip''] ''SFA''
             (after_anomalies (indexed padded_zip_rows)))
   \<and> Plus_4_Code (snd (hd (indexed padded_zip_rows))) = Some ''2134''
   \<and> \<not> (length (strip ''2134'') = 5 \<and> isdigit (strip ''2134''))
   \<and> Zip (snd (hd (indexed padded_zip_rows))) = Some ''2134 ''
   \<and> strip ''2134'' \<noteq> ''2134 ''"
  by (simp add: padded_zip_eval after_anomalies_def anomaly_indices_of_def drop_rows_def
        detect_unit_anomalies_def example_row_def plus4_anomaly_indices_of_def
        plus4_anomaly_def string_eval)


section \<open>The majority-format exclusion and the declared building type\<close>

lemma drop_rows_Nil: "drop_rows df [] = df"
  by (simp add: drop_rows_def)

lemma after_plus4_Nil: "after_anomalies df = [] \<Longrightarrow> after_plus4 cols bt df = []"
  by (simp add: after_plus4_def drop_rows_def)

lemma non_mdu_engine:
  assumes "bt \<noteq> ''Residential - MDU''" and "after_plus4 cols bt df0 \<noteq> []"
  shows "process_roe_subname cols df0 sub bt =
     (let subname_df = after_plus4 cols bt df0;
          remove_addresses = anomaly_indices_of df0 @
            plus4_anomaly_indices_of cols bt (after_anomalies df0);
          all_formats = map (\<lambda>(idx, row). get_unit_format_type (Unit_Number row)) subname_df;
          format_counts = Counter all_formats;
          kr = street_dedup (is_condo_style_of subname_df) subname_df ([], remove_addresses);
          one_off = one_off_override subname_df (fst kr) (snd kr)
      in (fst one_off, fst (snd one_off),
          oversize_flags subname_df @
          minority_format_flags False all_formats format_counts subname_df (fst kr) (snd kr) @
          snd (snd one_off)))"
proof -
  have "after_anomalies df0 \<noteq> []"
    using assms(2) after_plus4_Nil by blast
  then show ?thesis
    using assms
    by (simp add: process_roe_subname_unfold Let_def non_mdu_exclusion drop_rows_Nil)
qed

lemma non_mdu_no_format_exclusion:
  assumes "bt \<noteq> ''Residential - MDU''"
  shows "format_excluded (snd (snd (process_roe_subname cols df0 sub bt))) = {}"
proof (cases "after_plus4 cols bt df0 = []")
  case True
  then show ?thesis
    by (cases "after_anomalies df0 = []") (simp_all add: process_roe_subname_unfold Let_def)
next
  case False
  show ?thesis
    unfolding non_mdu_engine [OF assms False] Let_def
    using one_off_override_bounds
    by (simp add: format_excluded_oversize format_excluded_minority)
qed

lemma mixed_format_exclusion:
  "fst (majority_format_exclusion (''Residential - MDU'' = ''Residential - MDU'')
         (Counter (map (\<lambda>(idx, row). get_unit_format_type (Unit_Number row))
            (indexed (mixed_format_rows ''Residential - MDU''))))
         (indexed (mixed_format_rows ''Residential - MDU''))) = [2]"
  by code_simp

text \<open>
  Claim C4. The majority-format exclusion runs only for a community declared
  Residential - MDU. For any other building type the stage returns no label and no flag
  entry, the flag entries of the community contain no majority-format entry, and the engine
  is the pipeline without that stage: the records that survive the two early exclusions go
  to the street-level deduplication unchanged, which applies the MDU policy exactly when the
  community is condo-style. For a community declared Residential - MDU the stage does
  exclude: of the units UNIT 1, UNIT 2 and APT 3 it excludes the third record.
\<close>

theorem format_exclusion_only_for_declared_mdu:
  assumes "building_type \<noteq> ''Residential - MDU''"
  shows "majority_format_exclusion (building_type = ''Residential - MDU'') format_counts df
           = ([], [])
       \<and> format_excluded (snd (snd (process_roe_subname cols subname_df subname building_type)))
           = {}
       \<and> (after_plus4 cols building_type subname_df \<noteq> [] \<longrightarrow>
            process_roe_subname cols subname_df subname building_type =
              (let survivors = after_plus4 cols building_type subname_df;
                   remove_addresses = anomaly_indices_of subname_df @
                     plus4_anomaly_indices_of cols building_type (after_anomalies subname_df);
                   all_formats =
                     map (\<lambda>(idx, row). get_unit_format_type (Unit_Number row)) survivors;
                   format_counts = Counter all_formats;
                   kr = street_dedup (is_condo_style_of survivors) survivors
                          ([], remove_addresses);
                   one_off = one_off_override survivors (fst kr) (snd kr)
               in (fst one_off, fst (snd one_off),
                   oversize_flags survivors @
                   minority_format_flags False all_formats format_counts survivors
                     (fst kr) (snd kr) @
                   snd (snd one_off))))
       \<and> fst (majority_format_exclusion (''Residential - MDU'' = ''Residential - MDU'')
               (Counter (map (\<lambda>(idx, row). get_unit_format_type (Unit_Number row))
                  (indexed (mixed_format_rows ''Residential - MDU''))))
               (indexed (mixed_format_rows ''Residential - MDU''))) = [2]"
proof (intro conjI impI)
  show "majority_format_exclusion (building_type = ''Residential - MDU'') format_counts df
           = ([], [])"
    using assms by (simp add: non_mdu_exclusion)
  show "format_excluded (snd (snd (process_roe_subname cols subname_df subname building_type)))
           = {}"
    using assms by (rule non_mdu_no_format_exclusion)
  show "fst (majority_format_exclusion (''Residential - MDU'' = ''Residential - MDU'')
               (Counter (map (\<lambda>(idx, row). get_unit_format_type (Unit_Number row))
                  (indexed (mixed_format_rows ''Residential - MDU''))))
               (indexed (mixed_format_rows ''Residential - MDU''))) = [2]"
    by (rule mixed_format_exclusion)
next
  assume "after_plus4 cols building_type subname_df \<noteq> []"
  with assms show "process_roe_subname cols subname_df subname building_type =
              (let survivors = after_plus4 cols building_type subname_df;
                   remove_addresses = anomaly_indices_of subname_df @
                     plus4_anomaly_indices_of cols building_type (after_anomalies subname_df);
                   all_formats =
                     map (\<lambda>(idx, row). get_unit_format_type (Unit_Number row)) survivors;
                   format_counts = Counter all_formats;
                   kr = street_dedup (is_condo_style_of survivors) survivors
                          ([], remove_addresses);
                   one_off = one_off_override survivors (fst kr) (snd kr)
               in (fst one_off, fst (snd one_off),
                   oversize_flags survivors @
                   minority_format_flags False all_formats format_counts survivors
                     (fst kr) (snd kr) @
                   snd (snd one_off)))"
    by (rule non_mdu_engine)
qed

lemma condo_eval:
  "after_plus4 [] ''SFA'' (indexed (condo_rows ''SFA'')) = indexed (condo_rows ''SFA'')"
  "is_condo_style_of (indexed (condo_rows ''SFA''))"
  "process_roe_subname [] (indexed (condo_rows ''SFA'')) ''Lakeside'' ''SFA'' =
     ([1..<53], [0, 0],
      [(0, One_off_without_unit 52,
        example_row (Some ''9 Lake Dr'') None ''SFA'' ''Lakeside'')])"
  by code_simp+

text \<open>
  A condo-style community declared SFA: 53 records on one street, one without unit, one with
  the unit APT 3 and 51 with the unit UNIT 7. The record with APT 3 is kept, not excluded,
  and the record without unit is removed, as the MDU policy has it.
\<close>

theorem format_exclusion_only_for_declared_mdu_witness:
  "''SFA'' \<noteq> ''Residential - MDU''
   \<and> after_plus4 [] ''SFA'' (indexed (condo_rows ''SFA'')) \<noteq> []
   \<and> is_condo_style_of (after_plus4 [] ''SFA'' (indexed (condo_rows ''SFA'')))
   \<and> format_excluded (snd (snd (process_roe_subname [] (indexed (condo_rows ''SFA''))
         ''Lakeside'' ''SFA''))) = {}
   \<and> get_unit_format_type (Unit_Number (condo_rows ''SFA'' ! 1)) = apt_format
   \<and> get_unit_format_type (Unit_Number (condo_rows ''SFA'' ! 2)) = unit_format
   \<and> 1 \<in> set (fst (process_roe_subname [] (indexed (condo_rows ''SFA'')) ''Lakeside'' ''SFA''))
   \<and> 0 \<in> set (fst (snd (process_roe_subname [] (indexed (condo_rows ''SFA''))
         ''Lakeside'' ''SFA'')))"
proof -
  have t: "''SFA'' \<noteq> ''Residential - MDU''" by simp
  have u: "get_unit_format_type (Unit_Number (condo_rows ''SFA'' ! 1)) = apt_format"
    "get_unit_format_type (Unit_Number (condo_rows ''SFA'' ! 2)) = unit_format"
    by (simp_all add: condo_rows_def example_row_def get_unit_format_type_def string_eval
          numeral_2_eq_2)
  have k: "1 \<in> set (fst (process_roe_subname [] (indexed (condo_rows ''SFA''))
      ''Lakeside'' ''SFA''))"
    "0 \<in> set (fst (snd (process_roe_subname [] (indexed (condo_rows ''SFA''))
      ''Lakeside'' ''SFA'')))"
    unfolding condo_eval(3) by simp_all
  from format_exclusion_only_for_declared_mdu
         [OF t, of "[]" "[]" "[]" "indexed (condo_rows ''SFA'')" "''Lakeside''"]
  have "format_excluded (snd (snd (process_roe_subname [] (indexed (condo_rows ''SFA''))
         ''Lakeside'' ''SFA''))) = {}"
    by blast
  moreover have "indexed (condo_rows ''SFA'') \<noteq> []"
    by (simp add: indexed_def condo_rows_def)
  ultimately show ?thesis
    using t u k condo_eval(1,2) by simp
qed


section \<open>The one-off override and the remove list\<close>

lemma lone_office_eval:
  "length (filter (\<lambda>ir. \<not> has_unit ir) (indexed (lone_office_rows ''Residential - MDU''))) = 1"
  "length (filter has_unit (indexed (lone_office_rows ''Residential - MDU''))) = 11"
  "map fst (same_street (indexed (lone_office_rows ''Residential - MDU''))
      (0, example_row (Some ''1 Office Way'') None ''Residential - MDU'' ''Oaks'')) = [0]"
  "mostly_units (indexed (lone_office_rows ''Residential - MDU''))"
  "process_roe_subname [] (indexed (lone_office_rows ''Residential - MDU'')) ''Oaks''
      ''Residential - MDU'' =
     ([1..<12], [0, 0],
      [(0, One_off_without_unit 11,
        example_row (Some ''1 Office Way'') None ''Residential - MDU'' ''Oaks'')])"
  "Remove (sort_addresses [] (lone_office_rows ''Residential - MDU'')) =
     [(0, example_row (Some ''1 Office Way'') None ''Residential - MDU'' ''Oaks''),
      (0, example_row (Some ''1 Office Way'') None ''Residential - MDU'' ''Oaks'')]"
  by code_simp+

text \<open>
  Claim C10. The one-off override appends the label of the lone record to the remove list
  whether or not the list holds it already. In the community of building type
  Residential - MDU with one record without unit on its own street and eleven records with a
  unit (a fraction of eleven twelfths with a unit), the street-level deduplication removes
  the lone record and the override appends it again: its label occurs twice in the remove
  list returned by \<open>process_roe_subname\<close>, and its row twice in the Remove tab.
\<close>

theorem one_off_override_lists_record_twice:
  "length (filter (\<lambda>ir. \<not> has_unit ir) (indexed (lone_office_rows ''Residential - MDU''))) = 1
   \<and> length (filter has_unit (indexed (lone_office_rows ''Residential - MDU''))) = 11
   \<and> map fst (same_street (indexed (lone_office_rows ''Residential - MDU''))
        (0, example_row (Some ''1 Office Way'') None ''Residential - MDU'' ''Oaks'')) = [0]
   \<and> mostly_units (indexed (lone_office_rows ''Residential - MDU''))
   \<and> fst (snd (process_roe_subname [] (indexed (lone_office_rows ''Residential - MDU''))
              ''Oaks'' ''Residential - MDU'')) = [0, 0]
   \<and> Remove (sort_addresses [] (lone_office_rows ''Residential - MDU'')) =
       [(0, example_row (Some ''1 Office Way'') None ''Residential - MDU'' ''Oaks''),
        (0, example_row (Some ''1 Office Way'') None ''Residential - MDU'' ''Oaks'')]"
  using lone_office_eval by simp


section \<open>Spacing and unit counts of the ROE tab\<close>

lemma map_of_counter_add:
  "map_of (counter_add k c) k' =
     (if k' = k then Some (case map_of c k of None \<Rightarrow> 1 | Some n \<Rightarrow> n + 1) else map_of c k')"
  by (induction c) (auto split: option.splits)

lemma map_of_foldl_counter_add:
  "map_of (foldl (\<lambda>c k. counter_add k c) c0 xs) k =
     (if k \<in> set xs
      then Some ((case map_of c0 k of None \<Rightarrow> 0 | Some n \<Rightarrow> n) + count_list xs k)
      else map_of c0 k)"
proof (induction xs arbitrary: c0)
  case Nil
  then show ?case by simp
next
  case (Cons x xs)
  show ?case
    by (simp add: Cons.IH map_of_counter_add split: option.splits)
qed

lemma map_of_Counter:
  "map_of (Counter xs) k = (if k \<in> set xs then Some (count_list xs k) else None)"
  by (simp add: Counter_def map_of_foldl_counter_add)

lemma count_list_map_filter:
  "count_list (map f xs) k = length (filter (\<lambda>x. f x = k) xs)"
  by (induction xs) auto

lemma spaced_Cons:
  "spaced (community_rows kept g # map (community_rows kept) gs) =
     community_rows kept g @ rest_rows kept gs"
  by (induction gs arbitrary: g) (simp_all add: rest_rows_def)

lemma spacing_loop_inside:
  assumes "\<forall>ir\<in>set rows. map_of C (Subname (snd ir)) =
      Some (length (filter (\<lambda>jr. Subname (snd jr) = Subname (snd ir)) kept))"
  shows "spacing_loop C (Some p) False rows =
     (case subname_runs rows of
        [] \<Rightarrow> []
      | (jr, g) # gs \<Rightarrow>
          if Subname (snd jr) = p
          then map (\<lambda>ir. Entry None (snd ir)) (jr # g) @ rest_rows kept gs
          else rest_rows kept ((jr, g) # gs))"
  using assms
proof (induction rows arbitrary: p)
  case Nil
  then show ?case by simp
next
  case (Cons ir rest)
  obtain i row where ir: "ir = (i, row)" by (cases ir)
  have C: "map_of C (Subname row) =
      Some (length (filter (\<lambda>jr. Subname (snd jr) = Subname row) kept))"
    using Cons.prems by (simp add: ir)
  have IH: "spacing_loop C (Some (Subname row)) False rest =
     (case subname_runs rest of
        [] \<Rightarrow> []
      | (jr, g) # gs \<Rightarrow>
          if Subname (snd jr) = Subname row
          then map (\<lambda>ir. Entry None (snd ir)) (jr # g) @ rest_rows kept gs
          else rest_rows kept ((jr, g) # gs))"
    using Cons.prems by (intro Cons.IH) simp
  show ?case
  proof (cases "subname_runs rest")
    case Nil
    then show ?thesis
      using IH C by (auto simp: ir Let_def rest_rows_def community_rows_def)
  next
    case (Cons a gs)
    obtain jr g where a: "a = (jr, g)" by (cases a)
    show ?thesis
      using IH C Cons
      by (cases "Subname (snd jr) = Subname row"; cases "Subname row = p")
         (auto simp: ir a Let_def rest_rows_def community_rows_def)
  qed
qed

lemma add_spacing_to_roe_runs:
  "add_spacing_to_roe df = spaced (map (community_rows df) (subname_runs df))"
proof (cases df)
  case Nil
  then show ?thesis by (simp add: add_spacing_to_roe_def)
next
  case (Cons ir rest)
  obtain i row where ir: "ir = (i, row)" by (cases ir)
  let ?C = "Counter (map (\<lambda>(idx, row). Subname row) df)"
  have C: "map_of ?C (Subname (snd jr)) =
      Some (length (filter (\<lambda>kr. Subname (snd kr) = Subname (snd jr)) df))"
    if "jr \<in> set df" for jr
    using that
    by (auto simp: map_of_Counter count_list_map_filter case_prod_unfold image_iff)
  have inside: "spacing_loop ?C (Some (Subname row)) False rest =
     (case subname_runs rest of
        [] \<Rightarrow> []
      | (jr, g) # gs \<Rightarrow>
          if Subname (snd jr) = Subname row
          then map (\<lambda>ir. Entry None (snd ir)) (jr # g) @ rest_rows df gs
          else rest_rows df ((jr, g) # gs))"
  proof (rule spacing_loop_inside, rule ballI)
    fix jr
    assume "jr \<in> set rest"
    then have "jr \<in> set df" by (simp add: Cons)
    then show "map_of ?C (Subname (snd jr)) =
        Some (length (filter (\<lambda>kr. Subname (snd kr) = Subname (snd jr)) df))"
      by (rule C)
  qed
  have "ir \<in> set df" by (simp add: Cons)
  then have Cir: "map_of ?C (Subname row) =
      Some (length (filter (\<lambda>kr. Subname (snd kr) = Subname row) df))"
    using C [of ir] by (simp add: ir)
  have "add_spacing_to_roe df = spacing_loop ?C None True ((i, row) # rest)"
    by (simp add: add_spacing_to_roe_def Cons ir)
  also have "\<dots> =
      Entry (Some (length (filter (\<lambda>kr. Subname (snd kr) = Subname row) df))) row #
      spacing_loop ?C (Some (Subname row)) False rest"
    by (simp add: Let_def Cir)
  finally have first: "add_spacing_to_roe df =
      Entry (Some (length (filter (\<lambda>kr. Subname (snd kr) = Subname row) df))) row #
      spacing_loop ?C (Some (Subname row)) False rest" .
  show ?thesis
  proof (cases "subname_runs rest")
    case Nil
    have "subname_runs df = [(ir, [])]"
      using Nil by (simp add: \<open>df = ir # rest\<close>)
    then show ?thesis
      unfolding first using inside Nil by (simp add: ir community_rows_def)
  next
    case (Cons a gs)
    obtain jr g where a: "a = (jr, g)" by (cases a)
    have rest: "subname_runs rest = (jr, g) # gs"
      using Cons by (simp add: a)
    show ?thesis
    proof (cases "Subname row = Subname (snd jr)")
      case True
      have "subname_runs df = (ir, jr # g) # gs"
        using rest True by (simp add: \<open>df = ir # rest\<close> ir)
      then have rhs: "spaced (map (community_rows df) (subname_runs df)) =
          community_rows df (ir, jr # g) @ rest_rows df gs"
        by (simp add: spaced_Cons del: spaced.simps)
      have "spacing_loop ?C (Some (Subname row)) False rest =
          map (\<lambda>ir. Entry None (snd ir)) (jr # g) @ rest_rows df gs"
        using inside rest True by simp
      then show ?thesis
        unfolding first rhs by (simp add: community_rows_def ir)
    next
      case False
      have "subname_runs df = (ir, []) # (jr, g) # gs"
        using rest False by (simp add: \<open>df = ir # rest\<close> ir)
      then have rhs: "spaced (map (community_rows df) (subname_runs df)) =
          community_rows df (ir, []) @ rest_rows df ((jr, g) # gs)"
        using spaced_Cons [of df "(ir, [])" "(jr, g) # gs"] by simp
      have "spacing_loop ?C (Some (Subname row)) False rest = rest_rows df ((jr, g) # gs)"
        using inside rest False by simp
      then show ?thesis
        unfolding first rhs by (simp add: community_rows_def ir)
    qed
  qed
qed

lemma concat_subname_runs:
  "concat (map (\<lambda>run. fst run # snd run) (subname_runs df)) = df"
proof (induction df)
  case Nil
  then show ?case by simp
next
  case (Cons ir rest)
  then show ?case
    by (cases "subname_runs rest") (auto split: if_splits)
qed

lemma subname_runs_same:
  "\<forall>run\<in>set (subname_runs df). \<forall>ir\<in>set (snd run). Subname (snd ir) = Subname (snd (fst run))"
proof (induction df)
  case Nil
  then show ?case by simp
next
  case (Cons ir rest)
  show ?case
  proof (cases "subname_runs rest")
    case Nil
    then show ?thesis by simp
  next
    case runs: (Cons a gs)
    obtain jr g where a: "a = (jr, g)" by (cases a)
    from Cons.IH have g: "\<forall>x\<in>set g. Subname (snd x) = Subname (snd jr)"
      and gs: "\<forall>run\<in>set gs. \<forall>x\<in>set (snd run). Subname (snd x) = Subname (snd (fst run))"
      by (simp_all add: runs a)
    show ?thesis
    proof (cases "Subname (snd ir) = Subname (snd jr)")
      case True
      then show ?thesis using g gs by (simp add: runs a)
    next
      case False
      then show ?thesis using g gs by (simp add: runs a)
    qed
  qed
qed

lemma subname_runs_first_mem:
  "run \<in> set (subname_runs df) \<Longrightarrow> fst run \<in> set df"
proof -
  assume "run \<in> set (subname_runs df)"
  then have "fst run \<in> set (concat (map (\<lambda>run. fst run # snd run) (subname_runs df)))"
    by auto
  then show ?thesis by (simp only: concat_subname_runs)
qed

lemma subname_runs_strict:
  assumes "sorted (map (\<lambda>ir. Subname (snd ir)) df)"
  shows "sorted_wrt (<) (map (\<lambda>run. Subname (snd (fst run))) (subname_runs df))"
  using assms
proof (induction df)
  case Nil
  then show ?case by simp
next
  case (Cons ir rest)
  then have IH: "sorted_wrt (<) (map (\<lambda>run. Subname (snd (fst run))) (subname_runs rest))"
    and le: "\<forall>jr\<in>set rest. Subname (snd ir) \<le> Subname (snd jr)"
    by auto
  show ?case
  proof (cases "subname_runs rest")
    case Nil
    then show ?thesis by simp
  next
    case (Cons a gs)
    obtain jr g where a: "a = (jr, g)" by (cases a)
    have "(jr, g) \<in> set (subname_runs rest)"
      by (simp add: Cons a)
    then have "jr \<in> set rest"
      using subname_runs_first_mem by fastforce
    then have le_jr: "Subname (snd ir) \<le> Subname (snd jr)"
      using le by blast
    from IH have tail: "\<forall>run\<in>set gs. Subname (snd jr) < Subname (snd (fst run))"
      and srt: "sorted_wrt (<) (map (\<lambda>run. Subname (snd (fst run))) gs)"
      by (auto simp: Cons a)
    show ?thesis
    proof (cases "Subname (snd ir) = Subname (snd jr)")
      case True
      then show ?thesis
        using tail srt by (simp add: Cons a)
    next
      case False
      then have "Subname (snd ir) < Subname (snd jr)"
        using le_jr by simp
      then show ?thesis
        using tail srt False by (auto simp: Cons a)
    qed
  qed
qed

lemma filter_runs_community:
  assumes "distinct (map (\<lambda>run. Subname (snd (fst run))) runs)"
    and "\<forall>run\<in>set runs. \<forall>ir\<in>set (snd run). Subname (snd ir) = Subname (snd (fst run))"
    and "run \<in> set runs"
  shows "filter (\<lambda>ir. Subname (snd ir) = Subname (snd (fst run)))
           (concat (map (\<lambda>run. fst run # snd run) runs)) = fst run # snd run"
  using assms
proof (induction runs)
  case Nil
  then show ?case by simp
next
  case (Cons r runs)
  have same: "Subname (snd x) = Subname (snd (fst q))"
    if "q \<in> set (r # runs)" "x \<in> set (snd q)" for q x
    using Cons.prems(2) that by blast
  have all: "filter (\<lambda>ir. Subname (snd ir) = Subname (snd (fst q))) (fst q # snd q)
      = fst q # snd q" if "q \<in> set (r # runs)" for q
    using same [OF that] by (simp add: filter_id_conv)
  have none: "filter (\<lambda>ir. Subname (snd ir) = s) (fst q # snd q) = []"
    if "q \<in> set (r # runs)" "Subname (snd (fst q)) \<noteq> s" for q s
    using same [OF that(1)] that(2) by (simp add: filter_empty_conv)
  have none_tail: "filter (\<lambda>ir. Subname (snd ir) = s)
      (concat (map (\<lambda>run. fst run # snd run) runs)) = []"
    if "\<forall>q\<in>set runs. Subname (snd (fst q)) \<noteq> s" for s
  proof -
    have "Subname (snd x) \<noteq> s" if "q \<in> set runs" "x = fst q \<or> x \<in> set (snd q)" for q x
      using same [of q x] that \<open>\<forall>q\<in>set runs. Subname (snd (fst q)) \<noteq> s\<close> by auto
    then show ?thesis
      by (auto simp: filter_empty_conv)
  qed
  have split: "concat (map (\<lambda>run. fst run # snd run) (r # runs)) =
      (fst r # snd r) @ concat (map (\<lambda>run. fst run # snd run) runs)"
    by simp
  show ?case
  proof (cases "run = r")
    case True
    have "\<forall>q\<in>set runs. Subname (snd (fst q)) \<noteq> Subname (snd (fst r))"
      using Cons.prems(1) by (auto simp: image_iff)
    then have "filter (\<lambda>ir. Subname (snd ir) = Subname (snd (fst r)))
        (concat (map (\<lambda>run. fst run # snd run) runs)) = []"
      by (rule none_tail)
    moreover have "filter (\<lambda>ir. Subname (snd ir) = Subname (snd (fst r))) (fst r # snd r)
        = fst r # snd r"
      by (rule all) simp
    ultimately show ?thesis
      unfolding True split filter_append by (simp only: append_Nil2)
  next
    case False
    then have mem: "run \<in> set runs" using Cons.prems(3) by simp
    then have ne: "Subname (snd (fst r)) \<noteq> Subname (snd (fst run))"
      using Cons.prems(1) by (auto simp: image_iff)
    have IH: "filter (\<lambda>ir. Subname (snd ir) = Subname (snd (fst run)))
           (concat (map (\<lambda>run. fst run # snd run) runs)) = fst run # snd run"
      using Cons.prems mem by (intro Cons.IH) auto
    have "filter (\<lambda>ir. Subname (snd ir) = Subname (snd (fst run))) (fst r # snd r) = []"
      using ne by (intro none) simp_all
    then show ?thesis
      unfolding split filter_append using IH by (simp only: append_Nil)
  qed
qed

lemma sorted_fst_key:
  fixes k :: "'a \<Rightarrow> 'b::linorder \<times> 'c::linorder"
  assumes "sorted (map k xs)"
  shows "sorted (map (\<lambda>x. fst (k x)) xs)"
proof -
  have "sorted_wrt (\<lambda>x y. k x \<le> k y) xs"
    using assms by (simp add: sorted_map)
  then have "sorted_wrt (\<lambda>x y. fst (k x) \<le> fst (k y)) xs"
    by (rule sorted_wrt_mono_rel [rotated]) (auto simp: less_eq_prod_def)
  then show ?thesis
    by (simp add: sorted_map)
qed

lemma sorted_sort_roe: "sorted (map (\<lambda>ir. Subname (snd ir)) (sort_roe cols kept))"
proof (cases "''Street Name'' \<in> set cols")
  case True
  let ?k = "\<lambda>(idx, row). (Subname row, nan_last (Street_Name row), nan_last (Street_Address row))"
  have "sorted (map ?k (sort_key ?k kept))"
    by (rule sorted_sort_key)
  then have "sorted (map (\<lambda>x. fst (?k x)) (sort_key ?k kept))"
    by (rule sorted_fst_key)
  then show ?thesis
    using True by (simp add: sort_roe_def case_prod_unfold)
next
  case False
  let ?k = "\<lambda>(idx, row). (Subname row, nan_last (Street_Address row))"
  have "sorted (map ?k (sort_key ?k kept))"
    by (rule sorted_sort_key)
  then have "sorted (map (\<lambda>x. fst (?k x)) (sort_key ?k kept))"
    by (rule sorted_fst_key)
  then show ?thesis
    using False by (simp add: sort_roe_def case_prod_unfold)
qed

lemma length_filter_sort_roe:
  "length (filter P (sort_roe cols kept)) = length (filter P kept)"
  by (simp add: sort_roe_def filter_sort)

lemma community_rows_sort_roe:
  "community_rows (sort_roe cols kept) = community_rows kept"
  by (rule ext) (simp add: community_rows_def length_filter_sort_roe)

text \<open>
  Claim C8, as amended. The ROE tab is laid out by community name: a block is the set of the
  rows with one \<open>Subname\<close>, whatever their building type. The tab handed to
  \<open>add_spacing_to_roe\<close> is sorted by \<open>Subname\<close> first, so the rows of a name are consecutive:
  the runs of the sorted tab have pairwise different names, and each run holds all kept
  records of its name. The spaced tab is the runs in order with exactly one blank row
  between two consecutive runs; the first row of a run carries the number of kept records
  of its name, counted on the tab before spacing, and the other rows of the run carry no
  count. In particular a name with 12 kept records has the count 12 on its first row.
\<close>

theorem spaced_roe_layout:
  "add_spacing_to_roe (sort_roe cols kept) =
     spaced (map (community_rows kept) (subname_runs (sort_roe cols kept)))
   \<and> concat (map (\<lambda>run. fst run # snd run) (subname_runs (sort_roe cols kept)))
       = sort_roe cols kept
   \<and> distinct (map (\<lambda>run. Subname (snd (fst run))) (subname_runs (sort_roe cols kept)))
   \<and> (\<forall>run\<in>set (subname_runs (sort_roe cols kept)).
         (\<forall>ir\<in>set (snd run). Subname (snd ir) = Subname (snd (fst run)))
         \<and> Suc (length (snd run))
             = length (filter (\<lambda>ir. Subname (snd ir) = Subname (snd (fst run))) kept))"
proof -
  let ?df = "sort_roe cols kept"
  let ?runs = "subname_runs ?df"
  have layout: "add_spacing_to_roe ?df = spaced (map (community_rows kept) ?runs)"
    using add_spacing_to_roe_runs [of ?df] by (simp only: community_rows_sort_roe)
  have rows: "concat (map (\<lambda>run. fst run # snd run) ?runs) = ?df"
    by (rule concat_subname_runs)
  have "sorted_wrt (<) (map (\<lambda>run. Subname (snd (fst run))) ?runs)"
    using sorted_sort_roe by (rule subname_runs_strict)
  then have dist: "distinct (map (\<lambda>run. Subname (snd (fst run))) ?runs)"
    by (simp add: strict_sorted_iff)
  have same: "\<forall>run\<in>set ?runs. \<forall>ir\<in>set (snd run). Subname (snd ir) = Subname (snd (fst run))"
    by (rule subname_runs_same)
  have count: "Suc (length (snd run))
      = length (filter (\<lambda>ir. Subname (snd ir) = Subname (snd (fst run))) kept)"
    if "run \<in> set ?runs" for run
  proof -
    have "filter (\<lambda>ir. Subname (snd ir) = Subname (snd (fst run)))
        (concat (map (\<lambda>run. fst run # snd run) ?runs)) = fst run # snd run"
      using dist same that by (rule filter_runs_community)
    then have "length (filter (\<lambda>ir. Subname (snd ir) = Subname (snd (fst run))) ?df)
        = Suc (length (snd run))"
      unfolding rows by simp
    then show ?thesis
      by (simp only: length_filter_sort_roe)
  qed
  show ?thesis
    using layout rows dist same count by blast
qed

lemma two_community_layout:
  "spaced (map (community_rows (indexed two_community_rows))
     (subname_runs (sort_roe [] (indexed two_community_rows)))) =
   Entry (Some 12) (example_row (Some ''5 Main St'') (Some ''UNIT 7'') ''HOA'' ''Oaks'') #
   replicate 11
     (Entry None (example_row (Some ''5 Main St'') (Some ''UNIT 7'') ''HOA'' ''Oaks'')) @
   [Blank,
    Entry (Some 2) (example_row (Some ''3 C St'') None ''HOA'' ''Pines''),
    Entry None (example_row (Some ''3 C St'') None ''HOA'' ''Pines'')]"
  by code_simp

theorem spaced_roe_layout_witness:
  "add_spacing_to_roe (sort_roe [] (indexed two_community_rows)) =
   Entry (Some 12) (example_row (Some ''5 Main St'') (Some ''UNIT 7'') ''HOA'' ''Oaks'') #
   replicate 11
     (Entry None (example_row (Some ''5 Main St'') (Some ''UNIT 7'') ''HOA'' ''Oaks'')) @
   [Blank,
    Entry (Some 2) (example_row (Some ''3 C St'') None ''HOA'' ''Pines''),
    Entry None (example_row (Some ''3 C St'') None ''HOA'' ''Pines'')]"
  using spaced_roe_layout [of "[]" "indexed two_community_rows"]
  by (simp only: two_community_layout)


section \<open>Routing of the records to the categories\<close>

lemma engine_keep_distinct:
  assumes "distinct (map fst df0)"
  shows "distinct (fst (process_roe_subname cols df0 sub bt))"
proof -
  define df2 where "df2 = after_plus4 cols bt df0"
  define is_mdu where "is_mdu = (bt = ''Residential - MDU'')"
  define af where "af = map (\<lambda>(idx, row). get_unit_format_type (Unit_Number row)) df2"
  define excl where "excl = majority_format_exclusion is_mdu (Counter af) df2"
  define df3 where "df3 = drop_rows df2 (fst excl)"
  define r0 where "r0 = anomaly_indices_of df0 @
      plus4_anomaly_indices_of cols bt (after_anomalies df0)"
  define kr where "kr = street_dedup (is_mdu \<or> is_condo_style_of df2) df3 ([], r0)"
  define oo where "oo = one_off_override df3 (fst kr) (snd kr)"
  have keep: "fst (process_roe_subname cols df0 sub bt) = [] \<or>
      fst (process_roe_subname cols df0 sub bt) = fst oo"
    unfolding process_roe_subname_unfold Let_def
    by (simp add: df2_def is_mdu_def af_def excl_def df3_def r0_def kr_def oo_def)
  have d3: "distinct (map fst df3)"
    unfolding df3_def df2_def after_plus4_def after_anomalies_def
    by (intro distinct_drop_rows assms)
  have "distinct (map fst (street_order df3))"
    using d3 by (rule distinct_street_order)
  then have "distinct (fst kr)"
    unfolding kr_def street_dedup_eq fst_conv append_Nil by (rule distinct_map_filter)
  then have "distinct (fst oo)"
    using one_off_override_shape [of df3 "fst kr" "snd kr"]
    unfolding oo_def by auto
  with keep show ?thesis by auto
qed

lemma set_loc: "set (loc df ls) = {ir \<in> set df. fst ir \<in> set ls}"
  by (auto simp: loc_def)

lemma loc_map_fst:
  assumes "distinct (map fst df)" and "set ls \<subseteq> fst ` set df"
  shows "map fst (loc df ls) = ls"
  using assms(2)
proof (induction ls)
  case Nil
  then show ?case by (simp add: loc_def)
next
  case (Cons l ls)
  then obtain row where mem: "(l, row) \<in> set df" by auto
  have "filter (\<lambda>(idx, row). idx = l) df = [(l, row)]"
    using assms(1) mem
  proof (induction df)
    case Nil
    then show ?case by simp
  next
    case (Cons a df)
    then show ?case
      by (cases a) (auto simp: filter_empty_conv image_iff)
  qed
  then have "map fst (filter (\<lambda>(idx, row). idx = l) df) = [l]" by simp
  moreover have "map fst (loc df ls) = ls"
    using Cons by simp
  ultimately show ?case
    by (simp add: loc_def)
qed

lemma map_fst_indexed: "map fst (indexed rs) = [0..<length rs]"
  by (simp add: indexed_def)

lemma snd_mem_indexed: "ir \<in> set (indexed rs) \<Longrightarrow> snd ir \<in> set rs"
  unfolding indexed_def by (metis in_set_zipE prod.collapse)

lemma groups_of_groupby_subname_type:
  "map snd (groupby_subname_type df) =
     map (\<lambda>key. filter (\<lambda>ir. (Subname (snd ir), Building_Type (snd ir)) = key) df)
       (sort (remdups (map (\<lambda>ir. (Subname (snd ir), Building_Type (snd ir))) df)))"
  by (simp add: groupby_subname_type_def case_prod_unfold comp_def)

lemma set_sort_values: "set (sort_values col df) = set df"
  by (simp add: sort_values_def)

lemma distinct_sort_values:
  "distinct (map fst (sort_values col df)) = distinct (map fst df)"
proof -
  have "mset (sort_values col df) = mset df"
    by (simp add: sort_values_def)
  then have "image_mset fst (mset (sort_values col df)) = image_mset fst (mset df)"
    by (simp only:)
  then have "mset (map fst (sort_values col df)) = mset (map fst df)"
    by (simp only: mset_map)
  then show ?thesis
    by (rule mset_eq_imp_distinct_iff)
qed

lemma process_community_eq:
  "process_community cols acc g =
     (fst acc @ fst (community_result cols g),
      fst (snd acc) @ fst (snd (community_result cols g)),
      snd (snd acc) @ snd (snd (community_result cols g)))"
  by (simp add: process_community_def community_result_def prepared_def Let_def)

lemma foldl_process_community:
  "foldl (process_community cols) acc gs =
     (fst acc @ concat (map (\<lambda>g. fst (community_result cols g)) gs),
      fst (snd acc) @ concat (map (\<lambda>g. fst (snd (community_result cols g))) gs),
      snd (snd acc) @ concat (map (\<lambda>g. snd (snd (community_result cols g))) gs))"
  by (induction gs arbitrary: acc) (simp_all add: process_community_eq)

lemma set_prepared: "set (prepared cols g) = set (snd g)"
  by (simp add: prepared_def set_sort_values)

lemma distinct_prepared: "distinct (map fst (prepared cols g)) = distinct (map fst (snd g))"
  by (simp add: prepared_def distinct_sort_values)

lemma community_partition:
  assumes "distinct (map fst (snd g))"
    and "\<forall>ir\<in>set (snd g). Street_Address (snd ir) \<noteq> None"
  shows "set (fst (community_result cols g)) \<inter> set (fst (snd (community_result cols g))) = {}"
    and "set (fst (community_result cols g)) \<union> set (fst (snd (community_result cols g)))
           = fst ` set (snd g) - format_excluded (snd (snd (community_result cols g)))"
    and "format_excluded (snd (snd (community_result cols g))) \<subseteq> fst ` set (snd g)"
    and "distinct (fst (community_result cols g))"
proof -
  have d: "distinct (map fst (prepared cols g))"
    using assms(1) by (simp add: distinct_prepared)
  have s: "\<forall>ir\<in>set (prepared cols g). Street_Address (snd ir) \<noteq> None"
    using assms(2) by (simp add: set_prepared)
  from keep_remove_partition [OF d s, of cols "fst (fst g)" "snd (fst g)"]
  show "set (fst (community_result cols g)) \<inter> set (fst (snd (community_result cols g))) = {}"
    and "set (fst (community_result cols g)) \<union> set (fst (snd (community_result cols g)))
           = fst ` set (snd g) - format_excluded (snd (snd (community_result cols g)))"
    and "format_excluded (snd (snd (community_result cols g))) \<subseteq> fst ` set (snd g)"
    by (simp_all add: community_result_def set_prepared)
  show "distinct (fst (community_result cols g))"
    unfolding community_result_def using d by (rule engine_keep_distinct)
qed

lemma format_excluded_concat:
  "format_excluded (concat (map f gs)) = (\<Union>g\<in>set gs. format_excluded (f g))"
  by (induction gs) simp_all

lemma group_rows:
  assumes "g \<in> set (groupby_subname_type df)"
  shows "snd g = filter (\<lambda>ir. (Subname (snd ir), Building_Type (snd ir)) = fst g) df"
  using assms by (auto simp: groupby_subname_type_def case_prod_unfold)

lemma group_keys_distinct: "distinct (map fst (groupby_subname_type df))"
  by (simp add: groupby_subname_type_def comp_def)

lemma group_cover:
  assumes "ir \<in> set df"
  shows "\<exists>g\<in>set (groupby_subname_type df). ir \<in> set (snd g)"
proof -
  let ?key = "(Subname (snd ir), Building_Type (snd ir))"
  let ?g = "(?key, filter (\<lambda>(idx, row). (Subname row, Building_Type row) = ?key) df)"
  have "?key \<in> set (sort (remdups (map (\<lambda>(idx, row). (Subname row, Building_Type row)) df)))"
    using assms by (force simp: case_prod_unfold)
  then have "?g \<in> set (groupby_subname_type df)"
    unfolding groupby_subname_type_def by (simp add: image_iff)
  moreover have "ir \<in> set (snd ?g)"
    using assms by (simp add: case_prod_unfold)
  ultimately show ?thesis by blast
qed

lemma group_labels_disjoint:
  assumes d: "distinct (map fst df)"
    and g: "g \<in> set (groupby_subname_type df)" and h: "h \<in> set (groupby_subname_type df)"
    and x: "x \<in> fst ` set (snd g)" "x \<in> fst ` set (snd h)"
  shows "g = h"
proof -
  from x obtain r r' where r: "(x, r) \<in> set (snd g)" and r': "(x, r') \<in> set (snd h)"
    by force
  then have m: "(x, r) \<in> set df" "(x, r') \<in> set df"
    and k: "(Subname r, Building_Type r) = fst g" "(Subname r', Building_Type r') = fst h"
    using group_rows [OF g] group_rows [OF h] by auto
  from d m have "r = r'" by (meson eq_key_imp_eq_value)
  with k have "fst g = fst h" by simp
  then show ?thesis
    using group_rows [OF g] group_rows [OF h] by (simp add: prod_eq_iff)
qed

lemma sort_addresses_fields:
  "Public (sort_addresses cols rs) = of_building_type ''Residential'' (indexed rs)"
  "Commercial (sort_addresses cols rs) = of_building_type ''Commercial'' (indexed rs)"
  "Competitive (sort_addresses cols rs) = of_building_type ''Competitive'' (indexed rs)"
  "Other (sort_addresses cols rs) = of_building_type ''Other'' (indexed rs)"
  "ROE_kept (sort_addresses cols rs) = loc (roe_candidates_of rs) (fst (decisions_of cols rs))"
  "Remove (sort_addresses cols rs) =
     loc (roe_candidates_of rs) (fst (snd (decisions_of cols rs)))"
  "Flagged (sort_addresses cols rs) = snd (snd (decisions_of cols rs))"
  by (simp_all add: sort_addresses_def initial_sort_def process_roe_deduplication_def Let_def
        roe_candidates_of_def decisions_of_def)

lemma distinct_concat_map:
  assumes "distinct gs"
    and "\<forall>g\<in>set gs. distinct (f g)"
    and "\<forall>g\<in>set gs. \<forall>h\<in>set gs. g \<noteq> h \<longrightarrow> set (f g) \<inter> set (f h) = {}"
  shows "distinct (concat (map f gs))"
  using assms
proof (induction gs)
  case Nil
  then show ?case by simp
next
  case (Cons g gs)
  have "distinct (concat (map f gs))"
    using Cons.prems by (intro Cons.IH) auto
  moreover have "set (f g) \<inter> set (f h) = {}" if "h \<in> set gs" for h
    using Cons.prems that by auto
  ultimately show ?case
    using Cons.prems(2) by auto
qed

lemma decisions_partition:
  fixes cols :: "string list"
  assumes d: "distinct (map fst rc)"
    and st: "\<forall>ir\<in>set rc. Street_Address (snd ir) \<noteq> None"
  defines "acc \<equiv> foldl (process_community cols) ([], [], []) (groupby_subname_type rc)"
  shows "set (fst acc) \<inter> set (fst (snd acc)) = {}"
    and "set (fst acc) \<union> set (fst (snd acc)) = fst ` set rc - format_excluded (snd (snd acc))"
    and "format_excluded (snd (snd acc)) \<subseteq> fst ` set rc"
    and "distinct (fst acc)"
proof -
  let ?gs = "groupby_subname_type rc"
  let ?K = "\<lambda>g. fst (community_result cols g)"
  let ?R = "\<lambda>g. fst (snd (community_result cols g))"
  let ?F = "\<lambda>g. snd (snd (community_result cols g))"
  let ?L = "\<lambda>g. fst ` set (snd g)"
  have acc: "fst acc = concat (map ?K ?gs)" "fst (snd acc) = concat (map ?R ?gs)"
    "snd (snd acc) = concat (map ?F ?gs)"
    by (simp_all add: acc_def foldl_process_community)
  have sub: "set (snd g) \<subseteq> set rc" if "g \<in> set ?gs" for g
    using group_rows [OF that] by auto
  have dg: "distinct (map fst (snd g))" if "g \<in> set ?gs" for g
    using group_rows [OF that] d by (simp add: distinct_map_filter)
  have sg: "\<forall>ir\<in>set (snd g). Street_Address (snd ir) \<noteq> None" if "g \<in> set ?gs" for g
    using sub [OF that] st by blast
  have p1: "set (?K g) \<inter> set (?R g) = {}" if "g \<in> set ?gs" for g
    using community_partition(1) [OF dg [OF that] sg [OF that]] .
  have p2: "set (?K g) \<union> set (?R g) = ?L g - format_excluded (?F g)" if "g \<in> set ?gs" for g
    using community_partition(2) [OF dg [OF that] sg [OF that]] .
  have p3: "format_excluded (?F g) \<subseteq> ?L g" if "g \<in> set ?gs" for g
    using community_partition(3) [OF dg [OF that] sg [OF that]] .
  have p4: "distinct (?K g)" if "g \<in> set ?gs" for g
    using community_partition(4) [OF dg [OF that] sg [OF that]] .
  have same: "g = h" if "g \<in> set ?gs" "h \<in> set ?gs" "x \<in> ?L g" "x \<in> ?L h" for g h x
    using group_labels_disjoint [OF d that] .
  have KL: "set (?K g) \<subseteq> ?L g" and RL: "set (?R g) \<subseteq> ?L g" if "g \<in> set ?gs" for g
    using p2 [OF that] by auto
  have Lrc: "?L g \<subseteq> fst ` set rc" if "g \<in> set ?gs" for g
    using sub [OF that] by auto
  show "set (fst acc) \<inter> set (fst (snd acc)) = {}"
  proof (rule ccontr)
    assume "set (fst acc) \<inter> set (fst (snd acc)) \<noteq> {}"
    then obtain x g h where g: "g \<in> set ?gs" "x \<in> set (?K g)"
      and h: "h \<in> set ?gs" "x \<in> set (?R h)"
      by (auto simp: acc)
    then have "g = h"
      using KL [of g] RL [of h] by (intro same [of g h x]) auto
    with g h p1 [of g] show False by auto
  qed
  have fe: "format_excluded (snd (snd acc)) = (\<Union>g\<in>set ?gs. format_excluded (?F g))"
    by (simp add: acc format_excluded_concat)
  show "format_excluded (snd (snd acc)) \<subseteq> fst ` set rc"
    unfolding fe using p3 Lrc by blast
  show "set (fst acc) \<union> set (fst (snd acc)) = fst ` set rc - format_excluded (snd (snd acc))"
  proof (intro set_eqI iffI)
    fix x
    assume "x \<in> set (fst acc) \<union> set (fst (snd acc))"
    then obtain g where g: "g \<in> set ?gs" "x \<in> set (?K g) \<union> set (?R g)"
      by (auto simp: acc)
    then have xg: "x \<in> ?L g" "x \<notin> format_excluded (?F g)"
      using p2 [of g] by auto
    have "x \<notin> format_excluded (?F h)" if "h \<in> set ?gs" for h
    proof
      assume "x \<in> format_excluded (?F h)"
      then have "x \<in> ?L h" using p3 [OF that] by blast
      then have "g = h" using g(1) that xg(1) by (intro same [of g h x])
      with xg(2) \<open>x \<in> format_excluded (?F h)\<close> show False by simp
    qed
    then show "x \<in> fst ` set rc - format_excluded (snd (snd acc))"
      using xg(1) Lrc [OF g(1)] by (auto simp: fe)
  next
    fix x
    assume x: "x \<in> fst ` set rc - format_excluded (snd (snd acc))"
    then obtain ir where "ir \<in> set rc" "x = fst ir" by auto
    then obtain g where g: "g \<in> set ?gs" "x \<in> ?L g"
      using group_cover [of ir rc] by auto
    moreover have "x \<notin> format_excluded (?F g)"
      using x g(1) by (auto simp: fe)
    ultimately have "x \<in> set (?K g) \<union> set (?R g)"
      using p2 [of g] by auto
    then show "x \<in> set (fst acc) \<union> set (fst (snd acc))"
      using g(1) by (auto simp: acc)
  qed
  have "distinct ?gs"
    using group_keys_distinct [of rc] by (simp add: distinct_map)
  moreover have "\<forall>g\<in>set ?gs. \<forall>h\<in>set ?gs. g \<noteq> h \<longrightarrow> set (?K g) \<inter> set (?K h) = {}"
  proof (intro ballI impI)
    fix g h
    assume gh: "g \<in> set ?gs" "h \<in> set ?gs" "g \<noteq> h"
    show "set (?K g) \<inter> set (?K h) = {}"
    proof (rule ccontr)
      assume "set (?K g) \<inter> set (?K h) \<noteq> {}"
      then obtain x where "x \<in> set (?K g)" "x \<in> set (?K h)" by auto
      then have "x \<in> ?L g" "x \<in> ?L h"
        using KL [OF gh(1)] KL [OF gh(2)] by auto
      then have "g = h" using gh(1,2) by (intro same [of g h x])
      with gh(3) show False by simp
    qed
  qed
  ultimately show "distinct (fst acc)"
    unfolding acc using p4 by (intro distinct_concat_map) auto
qed

lemma labels_disjoint_by_type:
  assumes "distinct (map fst df)" and "set A \<subseteq> set df" and "set B \<subseteq> set df"
    and "\<forall>a\<in>set A. \<forall>b\<in>set B. Building_Type (snd a) \<noteq> Building_Type (snd b)"
  shows "fst ` set A \<inter> fst ` set B = {}"
proof (rule ccontr)
  assume "fst ` set A \<inter> fst ` set B \<noteq> {}"
  then obtain x r r' where a: "(x, r) \<in> set A" and b: "(x, r') \<in> set B"
    by force
  then have "(x, r) \<in> set df" "(x, r') \<in> set df"
    using assms(2,3) by auto
  with assms(1) have "r = r'" by (meson eq_key_imp_eq_value)
  with assms(4) a b show False by force
qed

lemma routing_partition:
  assumes types: "\<forall>row\<in>set rs. Building_Type row \<in>
        set [''Residential'', ''Commercial'', ''Competitive'', ''Other'',
             ''Residential - MDU'', ''SFA'', ''HOA'', ''Mobile'']"
    and streets: "\<forall>row\<in>set rs. Street_Address row \<noteq> None"
  shows "distinct (map fst (Public (sort_addresses cols rs) @ Commercial (sort_addresses cols rs)
           @ Competitive (sort_addresses cols rs) @ Other (sort_addresses cols rs)
           @ ROE_kept (sort_addresses cols rs)))
     \<and> fst ` set (Remove (sort_addresses cols rs))
         \<inter> fst ` set (Public (sort_addresses cols rs) @ Commercial (sort_addresses cols rs)
           @ Competitive (sort_addresses cols rs) @ Other (sort_addresses cols rs)
           @ ROE_kept (sort_addresses cols rs)) = {}
     \<and> fst ` set (Public (sort_addresses cols rs) @ Commercial (sort_addresses cols rs)
           @ Competitive (sort_addresses cols rs) @ Other (sort_addresses cols rs)
           @ ROE_kept (sort_addresses cols rs) @ Remove (sort_addresses cols rs))
         = {0..<length rs} - format_excluded (Flagged (sort_addresses cols rs))
     \<and> set (Public (sort_addresses cols rs) @ Commercial (sort_addresses cols rs)
           @ Competitive (sort_addresses cols rs) @ Other (sort_addresses cols rs)
           @ ROE_kept (sort_addresses cols rs) @ Remove (sort_addresses cols rs))
         \<subseteq> set (indexed rs)"
proof -
  let ?df = "indexed rs"
  let ?rc = "roe_candidates_of rs"
  define P where "P = of_building_type ''Residential'' ?df"
  define C where "C = of_building_type ''Commercial'' ?df"
  define Co where "Co = of_building_type ''Competitive'' ?df"
  define Ot where "Ot = of_building_type ''Other'' ?df"
  define K where "K = fst (decisions_of cols rs)"
  define R where "R = fst (snd (decisions_of cols rs))"
  define F where "F = snd (snd (decisions_of cols rs))"
  define ROE where "ROE = loc ?rc K"
  define Rm where "Rm = loc ?rc R"
  have fields: "Public (sort_addresses cols rs) = P" "Commercial (sort_addresses cols rs) = C"
    "Competitive (sort_addresses cols rs) = Co" "Other (sort_addresses cols rs) = Ot"
    "ROE_kept (sort_addresses cols rs) = ROE" "Remove (sort_addresses cols rs) = Rm"
    "Flagged (sort_addresses cols rs) = F"
    by (simp_all add: sort_addresses_fields P_def C_def Co_def Ot_def K_def R_def F_def
          ROE_def Rm_def)
  have d: "distinct (map fst ?df)"
    by (simp add: map_fst_indexed)
  have L: "fst ` set ?df = {0..<length rs}"
    using map_fst_indexed [of rs] by (metis set_map set_upt)
  have rc: "?rc = filter (\<lambda>ir. Building_Type (snd ir) \<in> set roe_types) ?df"
    by (simp add: roe_candidates_of_def initial_sort_def case_prod_unfold)
  have drc: "distinct (map fst ?rc)"
    unfolding rc using d by (rule distinct_map_filter)
  have src: "\<forall>ir\<in>set ?rc. Street_Address (snd ir) \<noteq> None"
    using streets snd_mem_indexed by (auto simp: rc)
  note part = decisions_partition [OF drc src, of cols, folded decisions_of_def K_def R_def F_def]
  have KR: "set K \<inter> set R = {}"
    and KRu: "set K \<union> set R = fst ` set ?rc - format_excluded F"
    and E: "format_excluded F \<subseteq> fst ` set ?rc"
    and dK: "distinct K"
    using part by (simp_all add: K_def R_def F_def)
  have Ksub: "set K \<subseteq> fst ` set ?rc" and Rsub: "set R \<subseteq> fst ` set ?rc"
    using KRu by auto
  have mK: "map fst ROE = K"
    unfolding ROE_def using drc Ksub by (rule loc_map_fst)
  have mR: "map fst Rm = R"
    unfolding Rm_def using drc Rsub by (rule loc_map_fst)
  have sets: "set P = {ir \<in> set ?df. Building_Type (snd ir) = ''Residential''}"
    "set C = {ir \<in> set ?df. Building_Type (snd ir) = ''Commercial''}"
    "set Co = {ir \<in> set ?df. Building_Type (snd ir) = ''Competitive''}"
    "set Ot = {ir \<in> set ?df. Building_Type (snd ir) = ''Other''}"
    "set ?rc = {ir \<in> set ?df. Building_Type (snd ir) \<in> set roe_types}"
    by (auto simp: P_def C_def Co_def Ot_def of_building_type_def rc)
  have sROE: "set ROE \<subseteq> set ?rc" and sRm: "set Rm \<subseteq> set ?rc"
    by (auto simp: ROE_def Rm_def set_loc)
  have dis: "fst ` set A \<inter> fst ` set B = {}"
    if "set A \<subseteq> set ?df" "set B \<subseteq> set ?df"
      "\<forall>a\<in>set A. \<forall>b\<in>set B. Building_Type (snd a) \<noteq> Building_Type (snd b)" for A B
    using d that by (rule labels_disjoint_by_type)
  have PC: "fst ` set P \<inter> fst ` set C = {}"
    and PCo: "fst ` set P \<inter> fst ` set Co = {}"
    and PO: "fst ` set P \<inter> fst ` set Ot = {}"
    and CCo: "fst ` set C \<inter> fst ` set Co = {}"
    and COt: "fst ` set C \<inter> fst ` set Ot = {}"
    and CoOt: "fst ` set Co \<inter> fst ` set Ot = {}"
    by (rule dis; simp add: sets; fail)+
  have Prc: "fst ` set P \<inter> fst ` set ?rc = {}"
    and Crc: "fst ` set C \<inter> fst ` set ?rc = {}"
    and Corc: "fst ` set Co \<inter> fst ` set ?rc = {}"
    and Orc: "fst ` set Ot \<inter> fst ` set ?rc = {}"
    by (rule dis; auto simp: sets roe_types_def; fail)+
  have dP: "distinct (map fst P)" and dC: "distinct (map fst C)"
    and dCo: "distinct (map fst Co)" and dO: "distinct (map fst Ot)"
    using d by (simp_all add: P_def C_def Co_def Ot_def of_building_type_def distinct_map_filter)
  have lROE: "fst ` set ROE = set K" and lRm: "fst ` set Rm = set R"
    using mK mR by (metis set_map)+
  define lab where "lab = (\<lambda>X :: dataframe. fst ` set X)"
  have app: "distinct (map fst (X @ Y))"
    if "distinct (map fst X)" "distinct (map fst Y)" "lab X \<inter> lab Y = {}" for X Y
    using that by (simp add: lab_def)
  have lapp: "lab (X @ Y) = lab X \<union> lab Y" for X Y
    by (simp add: lab_def image_Un)
  have lROE': "lab ROE = set K" and lRm': "lab Rm = set R"
    by (simp_all add: lab_def lROE lRm)
  have Ksub': "set K \<subseteq> lab ?rc" and Rsub': "set R \<subseteq> lab ?rc"
    using Ksub Rsub by (simp_all add: lab_def)
  have E': "format_excluded F \<subseteq> lab ?rc"
    using E by (simp add: lab_def)
  have KRu': "set K \<union> set R = lab ?rc - format_excluded F"
    using KRu by (simp add: lab_def)
  have dj: "lab P \<inter> lab C = {}" "lab P \<inter> lab Co = {}" "lab P \<inter> lab Ot = {}"
    "lab C \<inter> lab Co = {}" "lab C \<inter> lab Ot = {}" "lab Co \<inter> lab Ot = {}"
    "lab P \<inter> lab ?rc = {}" "lab C \<inter> lab ?rc = {}" "lab Co \<inter> lab ?rc = {}"
    "lab Ot \<inter> lab ?rc = {}"
    using PC PCo PO CCo COt CoOt Prc Crc Corc Orc by (simp_all add: lab_def)
  have dROE: "distinct (map fst ROE)"
    using dK by (simp only: mK)
  have l1: "lab (Ot @ ROE) = lab Ot \<union> set K"
    by (simp only: lapp lROE')
  have l2: "lab (Co @ Ot @ ROE) = lab Co \<union> (lab Ot \<union> set K)"
    by (simp only: lapp lROE')
  have l3: "lab (C @ Co @ Ot @ ROE) = lab C \<union> (lab Co \<union> (lab Ot \<union> set K))"
    by (simp only: lapp lROE')
  have l4: "lab (P @ C @ Co @ Ot @ ROE) = lab P \<union> (lab C \<union> (lab Co \<union> (lab Ot \<union> set K)))"
    by (simp only: lapp lROE')
  have l5: "lab (P @ C @ Co @ Ot @ ROE @ Rm) =
      lab P \<union> (lab C \<union> (lab Co \<union> (lab Ot \<union> (set K \<union> set R))))"
    by (simp only: lapp lROE' lRm')
  have "lab Ot \<inter> lab ROE = {}"
    unfolding lROE' using dj(10) Ksub' by blast
  with dO dROE have a1: "distinct (map fst (Ot @ ROE))" by (rule app)
  have "lab Co \<inter> lab (Ot @ ROE) = {}"
    unfolding l1 using dj(6,9) Ksub' by blast
  with dCo a1 have a2: "distinct (map fst (Co @ Ot @ ROE))" by (rule app)
  have "lab C \<inter> lab (Co @ Ot @ ROE) = {}"
    unfolding l2 using dj(4,5,8) Ksub' by blast
  with dC a2 have a3: "distinct (map fst (C @ Co @ Ot @ ROE))" by (rule app)
  have "lab P \<inter> lab (C @ Co @ Ot @ ROE) = {}"
    unfolding l3 using dj(1,2,3,7) Ksub' by blast
  with dP a3 have A: "distinct (map fst (P @ C @ Co @ Ot @ ROE))" by (rule app)
  have "lab Rm \<inter> lab (P @ C @ Co @ Ot @ ROE) = {}"
    unfolding l4 lRm' using dj(7,8,9,10) Rsub' KR by blast
  then have B: "fst ` set Rm \<inter> fst ` set (P @ C @ Co @ Ot @ ROE) = {}"
    by (simp only: lab_def)
  have all: "lab P \<union> lab C \<union> lab Co \<union> lab Ot \<union> lab ?rc = {0..<length rs}"
  proof -
    have "ir \<in> set P \<union> set C \<union> set Co \<union> set Ot \<union> set ?rc" if "ir \<in> set ?df" for ir
    proof -
      have "snd ir \<in> set rs"
        using that by (rule snd_mem_indexed)
      with types have "Building_Type (snd ir) \<in>
        set [''Residential'', ''Commercial'', ''Competitive'', ''Other'',
             ''Residential - MDU'', ''SFA'', ''HOA'', ''Mobile'']"
        by blast
      then show ?thesis
        using that unfolding sets roe_types_def by auto
    qed
    moreover have "set P \<union> set C \<union> set Co \<union> set Ot \<union> set ?rc \<subseteq> set ?df"
      unfolding sets by blast
    ultimately have "set ?df = set P \<union> set C \<union> set Co \<union> set Ot \<union> set ?rc"
      by blast
    then have "fst ` set ?df =
        fst ` set P \<union> fst ` set C \<union> fst ` set Co \<union> fst ` set Ot \<union> fst ` set ?rc"
      by (simp only: image_Un)
    then show ?thesis by (simp only: L lab_def)
  qed
  have "lab P \<union> lab C \<union> lab Co \<union> lab Ot \<subseteq> {0..<length rs} - lab ?rc"
    using all dj(7,8,9,10) by blast
  moreover have "lab ?rc \<subseteq> {0..<length rs}"
    using all by blast
  ultimately have "lab P \<union> (lab C \<union> (lab Co \<union> (lab Ot \<union> (lab ?rc - format_excluded F))))
      = {0..<length rs} - format_excluded F"
    using all E' by blast
  then have "lab (P @ C @ Co @ Ot @ ROE @ Rm) = {0..<length rs} - format_excluded F"
    unfolding l5 KRu' .
  then have Cc: "fst ` set (P @ C @ Co @ Ot @ ROE @ Rm) = {0..<length rs} - format_excluded F"
    by (simp only: lab_def)
  have "set P \<union> set C \<union> set Co \<union> set Ot \<union> set ?rc \<subseteq> set ?df"
    unfolding sets by blast
  then have D: "set (P @ C @ Co @ Ot @ ROE @ Rm) \<subseteq> set ?df"
    using sROE sRm unfolding set_append by blast
  show ?thesis
    unfolding fields using A B Cc D by (intro conjI)
qed

text \<open>
  Claim C2, as amended. When every record has one of the eight building types and a street
  address, no record appears in two of the categories Public, Commercial, Competitive, Other,
  ROE (kept) and Remove, none appears twice in Public, Commercial, Competitive, Other or
  ROE (kept), every row of a category is a record of the input, and the six categories
  together hold every record of the input except those excluded by the majority-format
  stage, which appear in the Flagged list only.
\<close>

theorem routing_partition_except_format_excluded:
  assumes "\<forall>row\<in>set rs. Building_Type row \<in>
        set [''Residential'', ''Commercial'', ''Competitive'', ''Other'',
             ''Residential - MDU'', ''SFA'', ''HOA'', ''Mobile'']"
    and "\<forall>row\<in>set rs. Street_Address row \<noteq> None"
  shows "distinct (map fst (Public (sort_addresses cols rs) @ Commercial (sort_addresses cols rs)
           @ Competitive (sort_addresses cols rs) @ Other (sort_addresses cols rs)
           @ ROE_kept (sort_addresses cols rs)))
     \<and> fst ` set (Remove (sort_addresses cols rs))
         \<inter> fst ` set (Public (sort_addresses cols rs) @ Commercial (sort_addresses cols rs)
           @ Competitive (sort_addresses cols rs) @ Other (sort_addresses cols rs)
           @ ROE_kept (sort_addresses cols rs)) = {}
     \<and> fst ` set (Public (sort_addresses cols rs) @ Commercial (sort_addresses cols rs)
           @ Competitive (sort_addresses cols rs) @ Other (sort_addresses cols rs)
           @ ROE_kept (sort_addresses cols rs) @ Remove (sort_addresses cols rs))
         = {0..<length rs} - format_excluded (Flagged (sort_addresses cols rs))
     \<and> set (Public (sort_addresses cols rs) @ Commercial (sort_addresses cols rs)
           @ Competitive (sort_addresses cols rs) @ Other (sort_addresses cols rs)
           @ ROE_kept (sort_addresses cols rs) @ Remove (sort_addresses cols rs))
         \<subseteq> set (indexed rs)"
  using assms by (rule routing_partition)

lemma routing_example_eval:
  "map fst (Public (sort_addresses [] routing_example_rows)
      @ Commercial (sort_addresses [] routing_example_rows)
      @ Competitive (sort_addresses [] routing_example_rows)
      @ Other (sort_addresses [] routing_example_rows)
      @ ROE_kept (sort_addresses [] routing_example_rows)
      @ Remove (sort_addresses [] routing_example_rows)) = [3, 4, 0, 1]"
  "map fst (Flagged (sort_addresses [] routing_example_rows)) = [2]"
  by code_simp+

lemma mixed_format_routing_eval:
  "map fst (Public (sort_addresses [] (mixed_format_rows ''Residential - MDU''))
      @ Commercial (sort_addresses [] (mixed_format_rows ''Residential - MDU''))
      @ Competitive (sort_addresses [] (mixed_format_rows ''Residential - MDU''))
      @ Other (sort_addresses [] (mixed_format_rows ''Residential - MDU''))
      @ ROE_kept (sort_addresses [] (mixed_format_rows ''Residential - MDU''))
      @ Remove (sort_addresses [] (mixed_format_rows ''Residential - MDU''))) = [0, 1]"
  by code_simp

theorem routing_partition_except_format_excluded_witness:
  "list_all (\<lambda>row. Building_Type row \<in>
        set [''Residential'', ''Commercial'', ''Competitive'', ''Other'',
             ''Residential - MDU'', ''SFA'', ''HOA'', ''Mobile'']) routing_example_rows
   \<and> list_all (\<lambda>row. Street_Address row \<noteq> None) routing_example_rows
   \<and> map fst (Public (sort_addresses [] routing_example_rows)
        @ Commercial (sort_addresses [] routing_example_rows)
        @ Competitive (sort_addresses [] routing_example_rows)
        @ Other (sort_addresses [] routing_example_rows)
        @ ROE_kept (sort_addresses [] routing_example_rows)
        @ Remove (sort_addresses [] routing_example_rows)) = [3, 4, 0, 1]
   \<and> {0..<length routing_example_rows}
        - format_excluded (Flagged (sort_addresses [] routing_example_rows)) = {3, 4, 0, 1}"
proof -
  have t: "\<forall>row\<in>set routing_example_rows. Building_Type row \<in>
        set [''Residential'', ''Commercial'', ''Competitive'', ''Other'',
             ''Residential - MDU'', ''SFA'', ''HOA'', ''Mobile'']"
    by (simp add: routing_example_rows_def mixed_format_rows_def example_row_def)
  have s: "\<forall>row\<in>set routing_example_rows. Street_Address row \<noteq> None"
    by (simp add: routing_example_rows_def mixed_format_rows_def example_row_def)
  let ?all = "Public (sort_addresses [] routing_example_rows)
        @ Commercial (sort_addresses [] routing_example_rows)
        @ Competitive (sort_addresses [] routing_example_rows)
        @ Other (sort_addresses [] routing_example_rows)
        @ ROE_kept (sort_addresses [] routing_example_rows)
        @ Remove (sort_addresses [] routing_example_rows)"
  from routing_partition_except_format_excluded [OF t s, of "[]"]
  have "fst ` set ?all = {0..<length routing_example_rows}
      - format_excluded (Flagged (sort_addresses [] routing_example_rows))"
    by (elim conjE)
  moreover have "fst ` set ?all = set (map fst ?all)"
    by (simp only: set_map)
  ultimately have "{0..<length routing_example_rows}
      - format_excluded (Flagged (sort_addresses [] routing_example_rows)) = {3, 4, 0, 1}"
    by (simp only: routing_example_eval(1)) simp
  with t s routing_example_eval(1) show ?thesis
    by (simp only: list_all_iff)
qed

text \<open>
  The claim as stated fails: of the three records UNIT 1, UNIT 2 and APT 3 of one
  Residential - MDU community, the third appears in none of the six categories.
\<close>

theorem format_excluded_record_in_no_category_counterexample:
  "2 < length (mixed_format_rows ''Residential - MDU'')
   \<and> 2 \<notin> set (map fst
       (Public (sort_addresses [] (mixed_format_rows ''Residential - MDU''))
        @ Commercial (sort_addresses [] (mixed_format_rows ''Residential - MDU''))
        @ Competitive (sort_addresses [] (mixed_format_rows ''Residential - MDU''))
        @ Other (sort_addresses [] (mixed_format_rows ''Residential - MDU''))
        @ ROE_kept (sort_addresses [] (mixed_format_rows ''Residential - MDU''))
        @ Remove (sort_addresses [] (mixed_format_rows ''Residential - MDU''))))"
  unfolding mixed_format_routing_eval by (simp add: mixed_format_rows_def)


section \<open>Street-level deduplication of an SFA community\<close>

lemma one_off_override_small:
  "length df \<le> 10 \<Longrightarrow> one_off_override df k r = (k, r, [])"
  by (simp add: one_off_override_def Let_def)

lemma street_dedup_Nil: "street_dedup m [] acc = acc"
  by (simp add: street_dedup_def groupby_street_def List.map_filter_simps)

lemma non_mdu_engine_lists:
  assumes "bt \<noteq> ''Residential - MDU''"
  shows "fst (process_roe_subname cols df0 sub bt) =
           fst (one_off_override (after_plus4 cols bt df0)
             (fst (street_dedup (bt = ''Residential - MDU'' \<or>
                      is_condo_style_of (after_plus4 cols bt df0))
                   (after_plus4 cols bt df0)
                   ([], anomaly_indices_of df0 @
                        plus4_anomaly_indices_of cols bt (after_anomalies df0))))
             (snd (street_dedup (bt = ''Residential - MDU'' \<or>
                      is_condo_style_of (after_plus4 cols bt df0))
                   (after_plus4 cols bt df0)
                   ([], anomaly_indices_of df0 @
                        plus4_anomaly_indices_of cols bt (after_anomalies df0)))))"
    and "fst (snd (process_roe_subname cols df0 sub bt)) =
           fst (snd (one_off_override (after_plus4 cols bt df0)
             (fst (street_dedup (bt = ''Residential - MDU'' \<or>
                      is_condo_style_of (after_plus4 cols bt df0))
                   (after_plus4 cols bt df0)
                   ([], anomaly_indices_of df0 @
                        plus4_anomaly_indices_of cols bt (after_anomalies df0))))
             (snd (street_dedup (bt = ''Residential - MDU'' \<or>
                      is_condo_style_of (after_plus4 cols bt df0))
                   (after_plus4 cols bt df0)
                   ([], anomaly_indices_of df0 @
                        plus4_anomaly_indices_of cols bt (after_anomalies df0))))))"
proof -
  let ?S = "after_plus4 cols bt df0"
  let ?r0 = "anomaly_indices_of df0 @ plus4_anomaly_indices_of cols bt (after_anomalies df0)"
  let ?kr = "street_dedup (bt = ''Residential - MDU'' \<or> is_condo_style_of ?S) ?S ([], ?r0)"
  have both: "fst (process_roe_subname cols df0 sub bt) = fst (one_off_override ?S (fst ?kr) (snd ?kr))
      \<and> fst (snd (process_roe_subname cols df0 sub bt)) =
          fst (snd (one_off_override ?S (fst ?kr) (snd ?kr)))"
  proof (cases "?S = []")
    case False
    show ?thesis
      using assms by (simp add: non_mdu_engine [OF assms False] Let_def)
  next
    case True
    have oo: "one_off_override [] [] ?r0 = ([], ?r0, [])"
      by (rule one_off_override_small) simp
    have "process_roe_subname cols df0 sub bt = ([], ?r0, [])"
      using True
      by (cases "after_anomalies df0 = []")
         (simp_all add: process_roe_subname_unfold Let_def plus4_anomaly_indices_Nil)
    then show ?thesis
      by (simp add: True street_dedup_Nil oo)
  qed
  from both show "fst (process_roe_subname cols df0 sub bt) =
      fst (one_off_override ?S (fst ?kr) (snd ?kr))"
    by (rule conjunct1)
  from both show "fst (snd (process_roe_subname cols df0 sub bt)) =
      fst (snd (one_off_override ?S (fst ?kr) (snd ?kr)))"
    by (rule conjunct2)
qed

text \<open>
  Claim C5, as amended. Take a community that is not Residential - MDU and the records of it
  that survive the anomaly exclusion and the postal extension exclusion. If these
  survivors are not condo-style, all have a street address, and every street address among
  them has at least one surviving record without unit and at least one with a unit, then
  the loop over the street groups, as \<open>process_roe_subname\<close> calls it, puts exactly the
  surviving records without unit into the keep list and adds exactly the surviving records
  with a unit to the remove list. The lists that \<open>process_roe_subname\<close> returns are these
  after the one-off override, which only moves a record from keep to remove and changes
  nothing when there are at most ten survivors.
\<close>

theorem sfa_dedup_keeps_no_unit_removes_with_unit:
  assumes "building_type \<noteq> ''Residential - MDU''"
    and "\<not> is_condo_style_of (after_plus4 cols building_type subname_df)"
    and "\<forall>ir\<in>set (after_plus4 cols building_type subname_df).
           Street_Address (snd ir) \<noteq> None
           \<and> list_ex (\<lambda>jr. \<not> has_unit jr)
                 (same_street (after_plus4 cols building_type subname_df) ir)
           \<and> list_ex has_unit (same_street (after_plus4 cols building_type subname_df) ir)"
  shows "(let survivors = after_plus4 cols building_type subname_df;
              early = anomaly_indices_of subname_df @
                plus4_anomaly_indices_of cols building_type (after_anomalies subname_df);
              kr = street_dedup
                (building_type = ''Residential - MDU'' \<or> is_condo_style_of survivors)
                survivors ([], early);
              res = process_roe_subname cols subname_df subname building_type
          in set (fst kr) = fst ` {ir \<in> set survivors. \<not> has_unit ir}
           \<and> set (snd kr) = set early \<union> fst ` {ir \<in> set survivors. has_unit ir}
           \<and> fst res = fst (one_off_override survivors (fst kr) (snd kr))
           \<and> fst (snd res) = fst (snd (one_off_override survivors (fst kr) (snd kr)))
           \<and> set (fst res) \<subseteq> fst ` {ir \<in> set survivors. \<not> has_unit ir}
           \<and> set early \<union> fst ` {ir \<in> set survivors. has_unit ir} \<subseteq> set (fst (snd res))
           \<and> (length survivors \<le> 10 \<longrightarrow>
                set (fst res) = fst ` {ir \<in> set survivors. \<not> has_unit ir}
                \<and> set (fst (snd res))
                    = set early \<union> fst ` {ir \<in> set survivors. has_unit ir}))"
proof -
  let ?S = "after_plus4 cols building_type subname_df"
  let ?r0 = "anomaly_indices_of subname_df @
      plus4_anomaly_indices_of cols building_type (after_anomalies subname_df)"
  let ?kr = "street_dedup (building_type = ''Residential - MDU'' \<or> is_condo_style_of ?S)
      ?S ([], ?r0)"
  let ?res = "process_roe_subname cols subname_df subname building_type"
  let ?N = "fst ` {ir \<in> set ?S. \<not> has_unit ir}"
  let ?W = "fst ` {ir \<in> set ?S. has_unit ir}"
  from sfa_street_dedup [OF assms, of ?r0]
  have k: "set (fst ?kr) = ?N" and r: "set (snd ?kr) = set ?r0 \<union> ?W"
    by blast+
  have e1: "fst ?res = fst (one_off_override ?S (fst ?kr) (snd ?kr))"
    using assms(1) by (rule non_mdu_engine_lists(1))
  have e2: "fst (snd ?res) = fst (snd (one_off_override ?S (fst ?kr) (snd ?kr)))"
    using assms(1) by (rule non_mdu_engine_lists(2))
  from one_off_override_bounds [of ?S "fst ?kr" "snd ?kr"]
  have b1: "set (fst ?res) \<subseteq> ?N" and b2: "set ?r0 \<union> ?W \<subseteq> set (fst (snd ?res))"
    unfolding e1 e2 k r by blast+
  have small: "set (fst ?res) = ?N \<and> set (fst (snd ?res)) = set ?r0 \<union> ?W"
    if "length ?S \<le> 10"
    unfolding e1 e2 one_off_override_small [OF that] using k r by simp
  show ?thesis
    unfolding Let_def using k r e1 e2 b1 b2 small by blast
qed

lemma paired_survivors:
  "after_plus4 [] ''SFA'' (indexed (paired_rows ''SFA'')) = indexed (paired_rows ''SFA'')"
  "process_roe_subname [] (indexed (paired_rows ''SFA'')) ''Oaks'' ''SFA'' = ([0, 3], [1, 2], [])"
  by code_simp+

theorem sfa_dedup_keeps_no_unit_removes_with_unit_witness:
  "''SFA'' \<noteq> ''Residential - MDU''
   \<and> \<not> is_condo_style_of (after_plus4 [] ''SFA'' (indexed (paired_rows ''SFA'')))
   \<and> list_all has_unit
        [(1, example_row (Some ''1 A St'') (Some ''UNIT 1'') ''SFA'' ''Oaks''),
         (2, example_row (Some ''2 B St'') (Some ''UNIT 1'') ''SFA'' ''Oaks'')]
   \<and> set (fst (process_roe_subname [] (indexed (paired_rows ''SFA'')) ''Oaks'' ''SFA''))
       = fst ` set [(0, example_row (Some ''1 A St'') None ''SFA'' ''Oaks''),
                   (3, example_row (Some ''2 B St'') None ''SFA'' ''Oaks'')]
   \<and> set (fst (snd (process_roe_subname [] (indexed (paired_rows ''SFA'')) ''Oaks'' ''SFA'')))
       = fst ` set [(1, example_row (Some ''1 A St'') (Some ''UNIT 1'') ''SFA'' ''Oaks''),
                   (2, example_row (Some ''2 B St'') (Some ''UNIT 1'') ''SFA'' ''Oaks'')]"
proof -
  let ?df = "indexed (paired_rows ''SFA'')"
  have t: "''SFA'' \<noteq> ''Residential - MDU''" by simp
  have c: "\<not> is_condo_style_of (after_plus4 [] ''SFA'' ?df)"
    unfolding paired_survivors(1) by (simp add: is_condo_style_of_def indexed_paired)
  have h: "\<forall>ir\<in>set (after_plus4 [] ''SFA'' ?df).
           Street_Address (snd ir) \<noteq> None
           \<and> list_ex (\<lambda>jr. \<not> has_unit jr) (same_street (after_plus4 [] ''SFA'' ?df) ir)
           \<and> list_ex has_unit (same_street (after_plus4 [] ''SFA'' ?df) ir)"
    unfolding paired_survivors(1)
    by (simp add: indexed_paired same_street_def has_unit_def example_row_def)
  have len: "length (after_plus4 [] ''SFA'' ?df) \<le> 10"
    unfolding paired_survivors(1) by (simp add: indexed_paired)
  have "fst ` set (filter (\<lambda>ir. \<not> has_unit ir) ?df) =
      fst ` set [(0, example_row (Some ''1 A St'') None ''SFA'' ''Oaks''),
                 (3, example_row (Some ''2 B St'') None ''SFA'' ''Oaks'')]"
    by (simp add: indexed_paired has_unit_def example_row_def)
  then have n: "fst ` {ir \<in> set ?df. \<not> has_unit ir} =
      fst ` set [(0, example_row (Some ''1 A St'') None ''SFA'' ''Oaks''),
                 (3, example_row (Some ''2 B St'') None ''SFA'' ''Oaks'')]"
    by (simp only: set_filter)
  have "fst ` set (filter has_unit ?df) =
      fst ` set [(1, example_row (Some ''1 A St'') (Some ''UNIT 1'') ''SFA'' ''Oaks''),
                 (2, example_row (Some ''2 B St'') (Some ''UNIT 1'') ''SFA'' ''Oaks'')]"
    by (simp add: indexed_paired has_unit_def example_row_def)
  then have w: "fst ` {ir \<in> set ?df. has_unit ir} =
      fst ` set [(1, example_row (Some ''1 A St'') (Some ''UNIT 1'') ''SFA'' ''Oaks''),
                 (2, example_row (Some ''2 B St'') (Some ''UNIT 1'') ''SFA'' ''Oaks'')]"
    by (simp only: set_filter)
  have e: "anomaly_indices_of ?df @ plus4_anomaly_indices_of [] ''SFA'' (after_anomalies ?df) = []"
    by (simp add: indexed_paired anomaly_indices_of_def detect_unit_anomalies_def
          example_row_def plus4_anomaly_indices_of_def string_eval)
  from sfa_dedup_keeps_no_unit_removes_with_unit [OF t c h, of "''Oaks''"] len
  have "set (fst (process_roe_subname [] ?df ''Oaks'' ''SFA''))
         = fst ` {ir \<in> set (after_plus4 [] ''SFA'' ?df). \<not> has_unit ir}
      \<and> set (fst (snd (process_roe_subname [] ?df ''Oaks'' ''SFA'')))
         = set (anomaly_indices_of ?df @
                plus4_anomaly_indices_of [] ''SFA'' (after_anomalies ?df))
           \<union> fst ` {ir \<in> set (after_plus4 [] ''SFA'' ?df). has_unit ir}"
    unfolding Let_def by blast
  then have "set (fst (process_roe_subname [] ?df ''Oaks'' ''SFA''))
         = fst ` set [(0, example_row (Some ''1 A St'') None ''SFA'' ''Oaks''),
                 (3, example_row (Some ''2 B St'') None ''SFA'' ''Oaks'')]
      \<and> set (fst (snd (process_roe_subname [] ?df ''Oaks'' ''SFA'')))
         = fst ` set [(1, example_row (Some ''1 A St'') (Some ''UNIT 1'') ''SFA'' ''Oaks''),
                 (2, example_row (Some ''2 B St'') (Some ''UNIT 1'') ''SFA'' ''Oaks'')]"
    unfolding paired_survivors(1) e n w by simp
  moreover have "list_all has_unit
        [(1, example_row (Some ''1 A St'') (Some ''UNIT 1'') ''SFA'' ''Oaks''),
         (2, example_row (Some ''2 B St'') (Some ''UNIT 1'') ''SFA'' ''Oaks'')]"
    by (simp add: has_unit_def example_row_def)
  ultimately show ?thesis
    using t c by blast
qed

lemma plus4_paired_eval:
  "Street_Address (plus4_paired_rows ! 0) = Street_Address (plus4_paired_rows ! 1)"
  "Unit_Number (plus4_paired_rows ! 0) = None"
  "Unit_Number (plus4_paired_rows ! 1) = Some ''UNIT 1''"
  "length plus4_paired_rows = 2"
  "\<not> is_condo_style_of (indexed plus4_paired_rows)"
  "process_roe_subname [''Plus 4 Code''] (indexed plus4_paired_rows) ''Oaks'' ''SFA''
     = ([1], [0], [])"
  by code_simp+

text \<open>
  The claim as stated fails: an SFA community with one street address, a record without
  unit whose Plus 4 value is 12345 and a record with the unit UNIT 1 has both kinds of
  record on its only street, yet the postal extension stage removes the record without
  unit and the street-level deduplication then keeps the record with the unit.
\<close>

theorem sfa_pair_split_by_plus4_counterexample:
  "Street_Address (plus4_paired_rows ! 0) = Street_Address (plus4_paired_rows ! 1)
   \<and> Unit_Number (plus4_paired_rows ! 0) = None
   \<and> Unit_Number (plus4_paired_rows ! 1) = Some ''UNIT 1''
   \<and> length plus4_paired_rows = 2
   \<and> \<not> is_condo_style_of (indexed plus4_paired_rows)
   \<and> process_roe_subname [''Plus 4 Code''] (indexed plus4_paired_rows) ''Oaks'' ''SFA''
       = ([1], [0], [])"
  using plus4_paired_eval by (intro conjI)


section \<open>Communities that share a name in the ROE tab\<close>

lemma same_name_eval:
  "map fst (groupby_subname_type (snd (initial_sort (indexed same_name_rows))))
     = [(''Oaks'', ''HOA''), (''Oaks'', ''SFA'')]"
  "map (Building_Type \<circ> snd) (ROE_kept (sort_addresses [] same_name_rows))
     = [''HOA'', ''HOA'', ''SFA'', ''SFA'', ''SFA'']"
  "ROE (sort_addresses [] same_name_rows) =
     [Entry (Some 5) (example_row (Some ''1 A St'') None ''HOA'' ''Oaks''),
      Entry None (example_row (Some ''2 B St'') None ''SFA'' ''Oaks''),
      Entry None (example_row (Some ''3 C St'') None ''HOA'' ''Oaks''),
      Entry None (example_row (Some ''4 D St'') None ''SFA'' ''Oaks''),
      Entry None (example_row (Some ''5 E St'') None ''SFA'' ''Oaks'')]"
  by code_simp+

text \<open>
  The claim as stated fails for communities that share a name: the communities (Oaks, HOA)
  with two kept records and (Oaks, SFA) with three are one block of the ROE tab, their rows
  interleaved by street address, with the count 5 on the first row, no count on the first
  row of the second community and no blank row between the two.
\<close>

theorem communities_sharing_a_name_merged_counterexample:
  "map fst (groupby_subname_type (snd (initial_sort (indexed same_name_rows))))
     = [(''Oaks'', ''HOA''), (''Oaks'', ''SFA'')]
   \<and> map (Building_Type \<circ> snd) (ROE_kept (sort_addresses [] same_name_rows))
     = [''HOA'', ''HOA'', ''SFA'', ''SFA'', ''SFA'']
   \<and> ROE (sort_addresses [] same_name_rows) =
     [Entry (Some 5) (example_row (Some ''1 A St'') None ''HOA'' ''Oaks''),
      Entry None (example_row (Some ''2 B St'') None ''SFA'' ''Oaks''),
      Entry None (example_row (Some ''3 C St'') None ''HOA'' ''Oaks''),
      Entry None (example_row (Some ''4 D St'') None ''SFA'' ''Oaks''),
      Entry None (example_row (Some ''5 E St'') None ''SFA'' ''Oaks'')]"
  using same_name_eval by (intro conjI)

end
